theory Spec2Isabelle
  imports Main "HOL-Library.AList"
begin

section \<open>The replication monitor (\<^verbatim>\<open>src/replication_monitor.py\<close>)\<close>

text \<open>
  The monitor is one Python class, \<^verbatim>\<open>ReplicationMonitor\<close>, that talks to three
  PostgreSQL servers through \<^verbatim>\<open>psycopg2\<close>. The class is embedded method by method;
  the servers, the client library and the clock are not part of the repository and are
  modelled as an explicit \<open>world\<close> that every method takes and returns. Python exceptions
  are values of type \<open>exn\<close>; a method that can raise returns a sum, \<open>Inl\<close> carrying the
  exception, beside the world and the monitor as the exception leaves them.
\<close>

subsection \<open>Exceptions\<close>

text \<open>
  \<^verbatim>\<open>KeyError\<close> is raised by a dictionary lookup, the other three by \<^verbatim>\<open>psycopg2\<close>:
  \<^verbatim>\<open>OperationalError\<close> for a server that cannot be reached or a connection that is
  lost, \<^verbatim>\<open>ProgrammingError\<close> for a statement the server rejects, \<^verbatim>\<open>InterfaceError\<close>
  for the use of a connection the library has marked closed. All four derive from
  \<^verbatim>\<open>Exception\<close>, so \<^verbatim>\<open>except Exception\<close> catches each of them.
\<close>

datatype exn =
    KeyError string
  | OperationalError string
  | ProgrammingError string
  | InterfaceError string

text \<open>\<^verbatim>\<open>str(e)\<close>: the key in quotes for a \<^verbatim>\<open>KeyError\<close>, the message otherwise.\<close>

fun str_exn :: "exn \<Rightarrow> string" where
  "str_exn (KeyError k) = [CHR 0x27] @ k @ [CHR 0x27]"
| "str_exn (OperationalError msg) = msg"
| "str_exn (ProgrammingError msg) = msg"
| "str_exn (InterfaceError msg) = msg"

subsection \<open>The database servers\<close>

text \<open>
  The monitor only ever reads \<^verbatim>\<open>COUNT(*)\<close> and \<^verbatim>\<open>MAX(id)\<close>, so a table is kept as the
  list of the serial keys of its rows, in insertion order, with the last value its
  sequence handed out. A database maps table names to tables.
\<close>

record table =
  table_ids :: "int list"
  table_serial :: int

type_synonym database = "string \<rightharpoonup> table"

text \<open>The statements the source sends, each with the table it names.\<close>

datatype sql =
    DropTableIfExists string
  | CreateTable string
  | InsertGenerated string nat
  | InsertValues string
  | SelectCount string
  | SelectMax string

text \<open>What can go wrong between the client and a server. The message that goes with a
  failure is the library's and the server's; the model does not spell it out (see
  \<open>errtext\<close> below).\<close>

datatype failure =
    CannotConnect string nat
  | ConnectionLost
  | ConnectionClosed
  | UndefinedTable sql
  | DuplicateTable sql

definition insert_rows :: "nat \<Rightarrow> table \<Rightarrow> table" where
  "insert_rows n tb =
     tb\<lparr>table_ids := table_ids tb @ map (\<lambda>k. table_serial tb + int k) [1..<Suc n],
        table_serial := table_serial tb + int n\<rparr>"

text \<open>The statements that change a database.\<close>

fun exec_stmt :: "sql \<Rightarrow> database \<Rightarrow> failure + database" where
  "exec_stmt (DropTableIfExists t) db = Inr (db(t := None))"
| "exec_stmt (CreateTable t) db =
     (case db t of
        None \<Rightarrow> Inr (db(t \<mapsto> \<lparr>table_ids = [], table_serial = 0\<rparr>))
      | Some _ \<Rightarrow> Inl (DuplicateTable (CreateTable t)))"
| "exec_stmt (InsertGenerated t n) db =
     (case db t of
        None \<Rightarrow> Inl (UndefinedTable (InsertGenerated t n))
      | Some tb \<Rightarrow> Inr (db(t \<mapsto> insert_rows n tb)))"
| "exec_stmt (InsertValues t) db =
     (case db t of
        None \<Rightarrow> Inl (UndefinedTable (InsertValues t))
      | Some tb \<Rightarrow> Inr (db(t \<mapsto> insert_rows 1 tb)))"
| "exec_stmt (SelectCount t) db =
     (case db t of
        None \<Rightarrow> Inl (UndefinedTable (SelectCount t))
      | Some tb \<Rightarrow> Inr db)"
| "exec_stmt (SelectMax t) db =
     (case db t of
        None \<Rightarrow> Inl (UndefinedTable (SelectMax t))
      | Some tb \<Rightarrow> Inr db)"

text \<open>
  One \<^verbatim>\<open>cursor.execute\<close> with several statements runs them in order as one
  transaction: the first statement that fails aborts the call, and the server keeps the
  database it had.
\<close>

fun exec_script :: "sql list \<Rightarrow> database \<Rightarrow> failure + database" where
  "exec_script [] db = Inr db"
| "exec_script (s # ss) db =
     (case exec_stmt s db of
        Inl f \<Rightarrow> Inl f
      | Inr db' \<Rightarrow> exec_script ss db')"

text \<open>\<^verbatim>\<open>SELECT COUNT(*) FROM t\<close> and \<^verbatim>\<open>SELECT MAX(id) FROM t\<close>; the maximum of an
  empty table is SQL \<^verbatim>\<open>NULL\<close>, which \<^verbatim>\<open>psycopg2\<close> hands over as \<^verbatim>\<open>None\<close>.\<close>

definition select_count :: "string \<Rightarrow> database \<Rightarrow> failure + int" where
  "select_count t db =
     (case db t of
        None \<Rightarrow> Inl (UndefinedTable (SelectCount t))
      | Some tb \<Rightarrow> Inr (int (length (table_ids tb))))"

definition select_max_id :: "string \<Rightarrow> database \<Rightarrow> failure + int option" where
  "select_max_id t db =
     (case db t of
        None \<Rightarrow> Inl (UndefinedTable (SelectMax t))
      | Some tb \<Rightarrow>
          (case table_ids tb of
             [] \<Rightarrow> Inr None
           | x # xs \<Rightarrow> Inr (Some (fold max xs x))))"

subsection \<open>The world: servers, connections, clock\<close>

text \<open>
  A server is found by host and port; an address with no entry is a server that cannot be
  reached. The servers live on their own: the database engines replicate, a server goes
  down or comes back, somebody drops a table. The monitor sees the servers only when it
  talks to one, so all that happened since its last exchange is taken to happen right
  before the next: \<open>step\<close> counts the exchanges so far and \<open>evolve k\<close> is what the
  environment does to the servers before exchange number \<open>k\<close>. In this way the two
  queries of one poll can meet different servers.

  A connection is an object of the client library. The library marks a connection closed
  when the server is lost in an exchange on it; \<open>closed\<close> holds the numbers of the connections so marked.

  The clock counts milliseconds; \<open>iso\<close> is what \<^verbatim>\<open>datetime.now().isoformat()\<close> prints
  at a given clock value. Exchanges with a server take no time in this model: only
  \<^verbatim>\<open>time.sleep\<close> moves the clock. \<open>errtext k f\<close> is the message of the exception that
  failure \<open>f\<close> raises in exchange \<open>k\<close>.
\<close>

type_synonym address = "string \<times> nat"

record world =
  servers :: "address \<rightharpoonup> database"
  step :: nat
  evolve :: "nat \<Rightarrow> (address \<rightharpoonup> database) \<Rightarrow> (address \<rightharpoonup> database)"
  closed :: "nat set"
  clock :: nat
  iso :: "nat \<Rightarrow> string"
  errtext :: "nat \<Rightarrow> failure \<Rightarrow> string"

definition now_isoformat :: "world \<Rightarrow> string" where
  "now_isoformat w = iso w (clock w)"

definition sleep :: "nat \<Rightarrow> world \<Rightarrow> world" where
  "sleep seconds w = w\<lparr>clock := clock w + seconds * 1000\<rparr>"

text \<open>The environment moves, and one more exchange is counted.\<close>

definition advance :: "world \<Rightarrow> world" where
  "advance w = w\<lparr>servers := evolve w (step w) (servers w), step := step w + 1\<rparr>"

text \<open>The exception class of each failure.\<close>

fun raise_of :: "world \<Rightarrow> failure \<Rightarrow> exn" where
  "raise_of w (CannotConnect h p) = OperationalError (errtext w (step w) (CannotConnect h p))"
| "raise_of w ConnectionLost = OperationalError (errtext w (step w) ConnectionLost)"
| "raise_of w ConnectionClosed = InterfaceError (errtext w (step w) ConnectionClosed)"
| "raise_of w (UndefinedTable s) = ProgrammingError (errtext w (step w) (UndefinedTable s))"
| "raise_of w (DuplicateTable s) = ProgrammingError (errtext w (step w) (DuplicateTable s))"

text \<open>A \<^verbatim>\<open>psycopg2\<close> connection: its number, the address it was opened to and its
  autocommit flag. \<^verbatim>\<open>psycopg2.connect\<close> is an exchange; the connection it returns is
  numbered by the exchange and is open.\<close>

record conn =
  conn_id :: nat
  conn_host :: string
  conn_port :: nat
  autocommit :: bool

definition psycopg2_connect :: "world \<Rightarrow> string \<Rightarrow> nat \<Rightarrow> world \<times> (exn + conn)" where
  "psycopg2_connect w h p =
     (let w' = advance w
      in case servers w' (h, p) of
           None \<Rightarrow> (w', Inl (raise_of w' (CannotConnect h p)))
         | Some _ \<Rightarrow>
             (w'\<lparr>closed := closed w' - {step w}\<rparr>,
              Inr \<lparr>conn_id = step w, conn_host = h, conn_port = p, autocommit = False\<rparr>))"

definition is_open :: "world \<Rightarrow> conn \<Rightarrow> bool" where
  "is_open w c = (conn_id c \<notin> closed w)"

text \<open>\<^verbatim>\<open>conn.cursor()\<close> raises on a closed connection and talks to no server.
  \<^verbatim>\<open>cursor.close()\<close> does not fail and is left out.\<close>

definition cursor :: "world \<Rightarrow> conn \<Rightarrow> exn + unit" where
  "cursor w c = (if is_open w c then Inr () else Inl (raise_of w ConnectionClosed))"

text \<open>
  One exchange on a connection, the first half of every \<^verbatim>\<open>cursor.execute\<close>: on a
  closed connection it raises at once; otherwise the environment moves, and either the
  server answers or the connection is lost and the library marks it closed.
\<close>

definition exchange :: "world \<Rightarrow> conn \<Rightarrow> world \<times> (exn + database)" where
  "exchange w c =
     (if \<not> is_open w c then (w, Inl (raise_of w ConnectionClosed))
      else
        (let w' = advance w
         in case servers w' (conn_host c, conn_port c) of
              None \<Rightarrow>
                (w'\<lparr>closed := insert (conn_id c) (closed w')\<rparr>, Inl (raise_of w' ConnectionLost))
            | Some db \<Rightarrow> (w', Inr db)))"

text \<open>\<^verbatim>\<open>cursor.execute\<close> of statements that change the database, and of the two
  queries, each followed by \<^verbatim>\<open>fetchone()[0]\<close>. The connections are in autocommit mode:
  a statement the server rejects leaves the connection usable.\<close>

definition execute_update :: "world \<Rightarrow> conn \<Rightarrow> sql list \<Rightarrow> world \<times> exn option" where
  "execute_update w c script =
     (case exchange w c of
        (w', Inl e) \<Rightarrow> (w', Some e)
      | (w', Inr db) \<Rightarrow>
          (case exec_script script db of
             Inl f \<Rightarrow> (w', Some (raise_of w' f))
           | Inr db' \<Rightarrow>
               (w'\<lparr>servers := (servers w')((conn_host c, conn_port c) \<mapsto> db')\<rparr>, None)))"

definition fetch_count :: "world \<Rightarrow> conn \<Rightarrow> world \<times> (exn + int)" where
  "fetch_count w c =
     (case exchange w c of
        (w', Inl e) \<Rightarrow> (w', Inl e)
      | (w', Inr db) \<Rightarrow>
          (case select_count ''replication_test'' db of
             Inl f \<Rightarrow> (w', Inl (raise_of w' f))
           | Inr n \<Rightarrow> (w', Inr n)))"

definition fetch_max_id :: "world \<Rightarrow> conn \<Rightarrow> world \<times> (exn + int option)" where
  "fetch_max_id w c =
     (case exchange w c of
        (w', Inl e) \<Rightarrow> (w', Inl e)
      | (w', Inr db) \<Rightarrow>
          (case select_max_id ''replication_test'' db of
             Inl f \<Rightarrow> (w', Inl (raise_of w' f))
           | Inr v \<Rightarrow> (w', Inr v)))"

subsection \<open>Formatting\<close>

text \<open>Decimal digits of a Python \<^verbatim>\<open>int\<close>, as \<^verbatim>\<open>str\<close> and an f-string print them.\<close>

fun str_nat :: "nat \<Rightarrow> string" where
  "str_nat n =
     (if n < 10 then [''0123456789'' ! n]
      else str_nat (n div 10) @ [''0123456789'' ! (n mod 10)])"

declare str_nat.simps [simp del]

definition str_int :: "int \<Rightarrow> string" where
  "str_int i = (if i < 0 then ''-'' @ str_nat (nat (- i)) else str_nat (nat i))"

subsection \<open>The monitor's state\<close>

record endpoint =
  host :: string
  port :: nat
  role :: string

record alert =
  alert_timestamp :: string
  alert_region :: string
  severity :: string
  message :: string
  lag_count :: int

text \<open>One replica's entry of a status: the full entry, or the error variant that the
  \<^verbatim>\<open>except\<close> branch appends. \<open>has_error\<close> is \<^verbatim>\<open>'error' in replica\<close>.\<close>

datatype replica_status =
    ReplicaOk (region: string) (record_count: int) (max_id: int)
              (lag_records: int) (lag_ids: int) (is_healthy: bool)
  | ReplicaError (region: string) (error: string) (is_healthy: bool)

fun has_error :: "replica_status \<Rightarrow> bool" where
  "has_error (ReplicaError _ _ _) = True"
| "has_error (ReplicaOk _ _ _ _ _ _) = False"

record primary_status =
  primary_region :: string
  primary_record_count :: int
  primary_max_id :: int

record status =
  timestamp :: string
  primary :: primary_status
  replicas :: "replica_status list"

text \<open>The two dictionaries are association lists with \<open>AList.update\<close> for
  \<^verbatim>\<open>d[k] = v\<close> (a key keeps its place, a new key goes to the end) and \<open>map_of\<close> for
  lookup.\<close>

record monitor =
  regions :: "(string \<times> endpoint) list"
  connections :: "(string \<times> conn) list"
  metrics_history :: "status list"
  alerts :: "alert list"

text \<open>\<^verbatim>\<open>__init__\<close>\<close>

definition init :: monitor where
  "init =
     \<lparr>regions =
        [(''us-west'', \<lparr>host = ''localhost'', port = 5441, role = ''primary''\<rparr>),
         (''us-east'', \<lparr>host = ''localhost'', port = 5442, role = ''replica''\<rparr>),
         (''eu-west'', \<lparr>host = ''localhost'', port = 5443, role = ''replica''\<rparr>)],
      connections = [],
      metrics_history = [],
      alerts = []\<rparr>"

subsection \<open>\<^verbatim>\<open>create_alert\<close>\<close>

text \<open>The dictionary the method builds, then the append.\<close>

definition alert_of :: "world \<Rightarrow> string \<Rightarrow> int \<Rightarrow> alert" where
  "alert_of w rgn lag =
     \<lparr>alert_timestamp = now_isoformat w,
      alert_region = rgn,
      severity = (if lag < 50 then ''WARNING'' else ''CRITICAL''),
      message = ''High replication lag detected: '' @ str_int lag @ '' records behind'',
      lag_count = lag\<rparr>"

definition create_alert :: "world \<Rightarrow> string \<Rightarrow> int \<Rightarrow> monitor \<Rightarrow> monitor" where
  "create_alert w rgn lag m =
     (let alert = alert_of w rgn lag
      in m\<lparr>alerts := alerts m @ [alert]\<rparr>)"

subsection \<open>\<^verbatim>\<open>connect_all\<close>\<close>

text \<open>The loop over \<^verbatim>\<open>self.regions.items()\<close>: a region whose connection attempt raises
  is skipped, the others are stored under their region name with autocommit switched
  on.\<close>

fun connect_regions ::
  "world \<Rightarrow> (string \<times> endpoint) list \<Rightarrow> monitor \<Rightarrow> world \<times> monitor" where
  "connect_regions w [] m = (w, m)"
| "connect_regions w ((rgn, config) # rest) m =
     (case psycopg2_connect w (host config) (port config) of
        (w', Inl e) \<Rightarrow> connect_regions w' rest m
      | (w', Inr c) \<Rightarrow>
          connect_regions w' rest
            (m\<lparr>connections := AList.update rgn (c\<lparr>autocommit := True\<rparr>) (connections m)\<rparr>))"

definition connect_all :: "world \<Rightarrow> monitor \<Rightarrow> (world \<times> monitor) \<times> bool" where
  "connect_all w m =
     (case connect_regions w (regions m) m of
        (w', m') \<Rightarrow> ((w', m'), length (connections m') = length (regions m')))"

subsection \<open>\<^verbatim>\<open>setup_primary\<close> and \<^verbatim>\<open>simulate_writes\<close>\<close>

definition setup_script :: "sql list" where
  "setup_script =
     [DropTableIfExists ''replication_test'',
      DropTableIfExists ''transactions'',
      CreateTable ''replication_test'',
      CreateTable ''transactions'',
      InsertGenerated ''transactions'' 1000]"

definition setup_primary :: "world \<Rightarrow> monitor \<Rightarrow> (world \<times> monitor) \<times> exn option" where
  "setup_primary w m =
     (case map_of (connections m) ''us-west'' of
        None \<Rightarrow> ((w, m), Some (KeyError ''us-west''))
      | Some c \<Rightarrow>
          (case cursor w c of
             Inl e \<Rightarrow> ((w, m), Some e)
           | Inr _ \<Rightarrow>
               (case execute_update w c setup_script of
                  (w', r) \<Rightarrow> ((w', m), r))))"

text \<open>The \<^verbatim>\<open>for i in range(count)\<close> loop: each insert is committed on its own
  (autocommit), so the rows written before a failing insert stay.\<close>

fun write_rows :: "world \<Rightarrow> conn \<Rightarrow> nat list \<Rightarrow> world \<times> exn option" where
  "write_rows w c [] = (w, None)"
| "write_rows w c (i # rest) =
     (case execute_update w c [InsertValues ''replication_test''] of
        (w', Some e) \<Rightarrow> (w', Some e)
      | (w', None) \<Rightarrow> write_rows w' c rest)"

definition simulate_writes :: "int \<Rightarrow> world \<Rightarrow> monitor \<Rightarrow> (world \<times> monitor) \<times> exn option" where
  "simulate_writes count w m =
     (case map_of (connections m) ''us-west'' of
        None \<Rightarrow> ((w, m), Some (KeyError ''us-west''))
      | Some c \<Rightarrow>
          (case cursor w c of
             Inl e \<Rightarrow> ((w, m), Some e)
           | Inr _ \<Rightarrow>
               (case write_rows w c [0..<nat count] of
                  (w', r) \<Rightarrow> ((w', m), r))))"

subsection \<open>\<^verbatim>\<open>check_replication_status\<close>\<close>

text \<open>\<^verbatim>\<open>x or 0\<close> on the value \<^verbatim>\<open>fetchone()[0]\<close> returns for \<^verbatim>\<open>MAX(id)\<close>: \<^verbatim>\<open>None\<close> and
  \<^verbatim>\<open>0\<close> are falsy.\<close>

definition or_zero :: "int option \<Rightarrow> int" where
  "or_zero v = (case v of None \<Rightarrow> 0 | Some x \<Rightarrow> if x = 0 then 0 else x)"

text \<open>
  The body of \<^verbatim>\<open>for region in ['us-east', 'eu-west']\<close>. The connection lookup and
  \<^verbatim>\<open>replica_conn.cursor()\<close> stand before the \<^verbatim>\<open>try\<close>, so a missing or a closed
  connection raises out of the method; an exception of either query is caught and
  recorded. The world and the monitor come back in every case, since what earlier
  replicas did to them stays when a later one raises.
\<close>

definition check_replica ::
  "world \<Rightarrow> int \<Rightarrow> int \<Rightarrow> string \<Rightarrow> monitor \<Rightarrow> replica_status list
    \<Rightarrow> (world \<times> monitor) \<times> (exn + replica_status list)" where
  "check_replica w primary_count primary_max rgn m reps =
     (case map_of (connections m) rgn of
        None \<Rightarrow> ((w, m), Inl (KeyError rgn))
      | Some replica_conn \<Rightarrow>
          (case cursor w replica_conn of
             Inl e \<Rightarrow> ((w, m), Inl e)
           | Inr _ \<Rightarrow>
               (case fetch_count w replica_conn of
                  (w1, Inl e) \<Rightarrow> ((w1, m), Inr (reps @ [ReplicaError rgn (str_exn e) False]))
                | (w1, Inr replica_count) \<Rightarrow>
                    (case fetch_max_id w1 replica_conn of
                       (w2, Inl e) \<Rightarrow>
                         ((w2, m), Inr (reps @ [ReplicaError rgn (str_exn e) False]))
                     | (w2, Inr v) \<Rightarrow>
                         (let replica_max_id = or_zero v;
                              lag_records = primary_count - replica_count;
                              lag_ids = primary_max - replica_max_id;
                              replica_status =
                                ReplicaOk rgn replica_count replica_max_id lag_records lag_ids
                                  (lag_records < 10)
                          in if \<not> is_healthy replica_status
                             then ((w2, create_alert w2 rgn lag_records m),
                                   Inr (reps @ [replica_status]))
                             else ((w2, m), Inr (reps @ [replica_status])))))))"

fun check_replicas ::
  "world \<Rightarrow> int \<Rightarrow> int \<Rightarrow> string list \<Rightarrow> monitor \<Rightarrow> replica_status list
    \<Rightarrow> (world \<times> monitor) \<times> (exn + replica_status list)" where
  "check_replicas w primary_count primary_max [] m reps = ((w, m), Inr reps)"
| "check_replicas w primary_count primary_max (rgn # rest) m reps =
     (case check_replica w primary_count primary_max rgn m reps of
        ((w', m'), Inl e) \<Rightarrow> ((w', m'), Inl e)
      | ((w', m'), Inr reps') \<Rightarrow> check_replicas w' primary_count primary_max rest m' reps')"

definition replica_regions :: "string list" where
  "replica_regions = [''us-east'', ''eu-west'']"

definition check_replication_status ::
  "world \<Rightarrow> monitor \<Rightarrow> (world \<times> monitor) \<times> (exn + status)" where
  "check_replication_status w m =
     (case map_of (connections m) ''us-west'' of
        None \<Rightarrow> ((w, m), Inl (KeyError ''us-west''))
      | Some primary_conn \<Rightarrow>
          (case cursor w primary_conn of
             Inl e \<Rightarrow> ((w, m), Inl e)
           | Inr _ \<Rightarrow>
               (case fetch_count w primary_conn of
                  (w1, Inl e) \<Rightarrow> ((w1, m), Inl e)
                | (w1, Inr primary_count) \<Rightarrow>
                    (case fetch_max_id w1 primary_conn of
                       (w2, Inl e) \<Rightarrow> ((w2, m), Inl e)
                     | (w2, Inr v) \<Rightarrow>
                         (let primary_max = or_zero v;
                              now = now_isoformat w2
                          in case check_replicas w2 primary_count primary_max
                                    replica_regions m [] of
                               ((w3, m'), Inl e) \<Rightarrow> ((w3, m'), Inl e)
                             | ((w3, m'), Inr reps) \<Rightarrow>
                                 (let st =
                                    \<lparr>timestamp = now,
                                     primary =
                                       \<lparr>primary_region = ''us-west'',
                                        primary_record_count = primary_count,
                                        primary_max_id = primary_max\<rparr>,
                                     replicas = reps\<rparr>
                                  in ((w3, m'\<lparr>metrics_history := metrics_history m' @ [st]\<rparr>),
                                      Inr st)))))))"

subsection \<open>\<^verbatim>\<open>print_status\<close>\<close>

text \<open>The format \<^verbatim>\<open>{n:,}\<close>: decimal digits in groups of three, from the right.\<close>

fun group_thousands :: "string \<Rightarrow> string" where
  "group_thousands (a # b # c # d # rest) = a # b # c # CHR '','' # group_thousands (d # rest)"
| "group_thousands ds = ds"

definition str_int_commas :: "int \<Rightarrow> string" where
  "str_int_commas i =
     (if i < 0 then ''-'' @ rev (group_thousands (rev (str_nat (nat (- i)))))
      else rev (group_thousands (rev (str_nat (nat i)))))"

text \<open>\<^verbatim>\<open>str.upper()\<close> on the ASCII letters, which is all a region name holds.\<close>

definition upper_char :: "char \<Rightarrow> char" where
  "upper_char c =
     (let n = (of_char c :: nat)
      in if 97 \<le> n \<and> n \<le> 122 then char_of (n - 32) else c)"

definition upper :: "string \<Rightarrow> string" where
  "upper s = map upper_char s"

text \<open>Python's \<^verbatim>\<open>a < b\<close> on strings: lexicographic on the character codes.\<close>

fun str_less :: "string \<Rightarrow> string \<Rightarrow> bool" where
  "str_less _ [] = False"
| "str_less [] (_ # _) = True"
| "str_less (a # as) (b # bs) =
     (if a = b then str_less as bs else (of_char a :: nat) < of_char b)"

definition rule80 :: string where
  "rule80 = replicate 80 (CHR ''='')"

fun replica_lines :: "replica_status \<Rightarrow> string list" where
  "replica_lines (ReplicaError rgn err h) =
     [[CHR 0x0A] @ ''  '' @ upper rgn @ '': ERROR'',
      ''    '' @ err]"
| "replica_lines (ReplicaOk rgn cnt mx lag lagi h) =
     [[CHR 0x0A] @ ''  '' @ upper rgn @ '': '' @ (if h then ''HEALTHY'' else ''LAGGING''),
      ''    Records: '' @ str_int_commas cnt,
      ''    Max ID: '' @ str_int_commas mx,
      ''    Lag: '' @ str_int lag @ '' records'']
     @ (if lag > 0 then [''    Status: Behind by '' @ str_int lag @ '' records''] else [])"

text \<open>What the method prints: each element is the argument of one \<^verbatim>\<open>print\<close> call.\<close>

definition status_lines :: "status \<Rightarrow> monitor \<Rightarrow> string list" where
  "status_lines st m =
     [[CHR 0x0A] @ rule80,
      ''MULTI-REGION REPLICATION STATUS - '' @ take 19 (timestamp st),
      rule80,
      [CHR 0x0A] @ ''PRIMARY (us-west):'',
      ''  Total Records: '' @ str_int_commas (primary_record_count (primary st)),
      ''  Max ID: '' @ str_int_commas (primary_max_id (primary st)),
      [CHR 0x0A] @ ''REPLICAS:'']
     @ concat (map replica_lines (replicas st))
     @ (if alerts m \<noteq> [] then
          (let recent_alerts =
                 filter (\<lambda>a. str_less (take 19 (timestamp st)) (alert_timestamp a)) (alerts m)
           in if recent_alerts \<noteq> []
              then [[CHR 0x0A] @ ''ACTIVE ALERTS: '' @ str_nat (length recent_alerts)]
              else [])
        else [])
     @ [rule80]"

text \<open>The method assigns to no attribute of \<^verbatim>\<open>self\<close>: the monitor is handed back as
  it came.\<close>

definition print_status :: "status \<Rightarrow> monitor \<Rightarrow> monitor \<times> string list" where
  "print_status st m = (m, status_lines st m)"

subsection \<open>\<^verbatim>\<open>run_monitoring\<close>\<close>

text \<open>
  The driver threads the world and the monitor through the methods it calls. Two lists
  are kept beside them for the properties of the run: the methods invoked, in order, and
  the lines printed.
\<close>

datatype call =
    ConnectAll
  | SetupPrimary
  | Sleep nat
  | SimulateWrites int
  | CheckReplicationStatus
  | PrintStatus

record run_state =
  rs_world :: world
  rs_monitor :: monitor
  rs_calls :: "call list"
  rs_stdout :: "string list"

definition run_connect_all :: "run_state \<Rightarrow> run_state \<times> bool" where
  "run_connect_all s =
     (case connect_all (rs_world s) (rs_monitor s) of
        ((w', m'), ok) \<Rightarrow>
          (s\<lparr>rs_world := w', rs_monitor := m', rs_calls := rs_calls s @ [ConnectAll]\<rparr>, ok))"

definition run_setup_primary :: "run_state \<Rightarrow> run_state \<times> exn option" where
  "run_setup_primary s =
     (case setup_primary (rs_world s) (rs_monitor s) of
        ((w', m'), r) \<Rightarrow>
          (s\<lparr>rs_world := w', rs_monitor := m', rs_calls := rs_calls s @ [SetupPrimary]\<rparr>, r))"

definition run_simulate_writes :: "int \<Rightarrow> run_state \<Rightarrow> run_state \<times> exn option" where
  "run_simulate_writes count s =
     (case simulate_writes count (rs_world s) (rs_monitor s) of
        ((w', m'), r) \<Rightarrow>
          (s\<lparr>rs_world := w', rs_monitor := m',
             rs_calls := rs_calls s @ [SimulateWrites count]\<rparr>, r))"

definition run_check_replication_status :: "run_state \<Rightarrow> run_state \<times> (exn + status)" where
  "run_check_replication_status s =
     (case check_replication_status (rs_world s) (rs_monitor s) of
        ((w', m'), r) \<Rightarrow>
          (s\<lparr>rs_world := w', rs_monitor := m',
             rs_calls := rs_calls s @ [CheckReplicationStatus]\<rparr>, r))"

definition run_print_status :: "status \<Rightarrow> run_state \<Rightarrow> run_state" where
  "run_print_status st s =
     (case print_status st (rs_monitor s) of
        (m', out) \<Rightarrow>
          s\<lparr>rs_monitor := m', rs_calls := rs_calls s @ [PrintStatus],
            rs_stdout := rs_stdout s @ out\<rparr>)"

definition run_sleep :: "nat \<Rightarrow> run_state \<Rightarrow> run_state" where
  "run_sleep seconds s =
     s\<lparr>rs_world := sleep seconds (rs_world s), rs_calls := rs_calls s @ [Sleep seconds]\<rparr>"

definition run_print :: "string list \<Rightarrow> run_state \<Rightarrow> run_state" where
  "run_print out s = s\<lparr>rs_stdout := rs_stdout s @ out\<rparr>"

text \<open>The body of the \<^verbatim>\<open>while\<close> loop, for the iteration number already incremented.
  An exception of \<^verbatim>\<open>simulate_writes\<close> or \<^verbatim>\<open>check_replication_status\<close> leaves the
  loop and the method.\<close>

definition tick :: "int \<Rightarrow> run_state \<Rightarrow> run_state \<times> exn option" where
  "tick iteration s =
     (case (if iteration mod 2 = 0 then run_simulate_writes 5 s else (s, None)) of
        (s1, Some e) \<Rightarrow> (s1, Some e)
      | (s1, None) \<Rightarrow>
          (case run_check_replication_status s1 of
             (s2, Inl e) \<Rightarrow> (s2, Some e)
           | (s2, Inr st) \<Rightarrow>
               (let s3 = (if iteration mod 2 = 0 then run_print_status st s2 else s2)
                in (run_sleep 5 s3, None))))"

text \<open>\<^verbatim>\<open>while time.time() - start_time < duration\<close>, with the clock in milliseconds
  and the duration in seconds.\<close>

function run_loop :: "nat \<Rightarrow> int \<Rightarrow> int \<Rightarrow> run_state \<Rightarrow> run_state \<times> exn option" where
  "run_loop start_time duration iteration s =
     (if int (clock (rs_world s)) - int start_time < duration * 1000 then
        (case tick (iteration + 1) s of
           (s', Some e) \<Rightarrow> (s', Some e)
         | (s', None) \<Rightarrow> run_loop start_time duration (iteration + 1) s')
      else (s, None))"
  by pat_completeness auto
termination
proof (relation "measure (\<lambda>(start_time, duration, iteration, s).
                   nat (int start_time + duration * 1000 - int (clock (rs_world s))))")
  show "wf (measure (\<lambda>(start_time, duration, iteration, s).
                   nat (int start_time + duration * 1000 - int (clock (rs_world s)))))"
    by simp
next
  fix start_time :: nat and duration iteration :: int and s x :: run_state and y :: "exn option"
  assume running: "int (clock (rs_world s)) - int start_time < duration * 1000"
    and step: "(x, y) = tick (iteration + 1) s" and ok: "y = None"
  have exch: "clock (fst (exchange w c)) = clock w" for w c
    by (simp add: exchange_def advance_def Let_def split: option.splits)
  have upd: "clock (fst (execute_update w c script)) = clock w" for w c script
    using exch [of w c]
    by (auto simp: execute_update_def split: prod.splits sum.splits)
  have rows: "clock (fst (write_rows w c is)) = clock w" for w c "is"
  proof (induction "is" arbitrary: w)
    case Nil
    show ?case by simp
  next
    case (Cons i rest)
    obtain w1 r where e: "execute_update w c [InsertValues ''replication_test''] = (w1, r)"
      by (cases "execute_update w c [InsertValues ''replication_test'']")
    with upd [of w c "[InsertValues ''replication_test'']"] have "clock w1 = clock w"
      by simp
    with e Cons.IH [of w1] show ?case
      by (cases r) simp_all
  qed
  have rows': "clock w' = clock w" if "write_rows w c is = (w', r)" for w w' c "is" r
    using rows [of w c "is"] that by simp
  have writes: "clock (fst (fst (simulate_writes n w m))) = clock w" for n w m
    by (auto simp: simulate_writes_def split: option.splits sum.splits prod.splits dest: rows')
  have sw: "clock (rs_world (fst (run_simulate_writes n t))) = clock (rs_world t)" for n t
    using writes [of n "rs_world t" "rs_monitor t"]
    by (auto simp: run_simulate_writes_def split: prod.splits)
  have cnt: "clock (fst (fetch_count w c)) = clock w" for w c
    using exch [of w c] by (auto simp: fetch_count_def split: prod.splits sum.splits)
  have mx: "clock (fst (fetch_max_id w c)) = clock w" for w c
    using exch [of w c] by (auto simp: fetch_max_id_def split: prod.splits sum.splits)
  have rep: "clock (fst (fst (check_replica w pc pm rgn m reps))) = clock w" for w pc pm rgn m reps
  proof (cases "map_of (connections m) rgn")
    case None
    then show ?thesis by (simp add: check_replica_def)
  next
    case (Some c)
    obtain w1 r1 where c1: "fetch_count w c = (w1, r1)"
      by (cases "fetch_count w c")
    obtain w2 r2 where c2: "fetch_max_id w1 c = (w2, r2)"
      by (cases "fetch_max_id w1 c")
    from c1 cnt [of w c] have k1: "clock w1 = clock w"
      by simp
    from c2 mx [of w1 c] k1 have k2: "clock w2 = clock w"
      by simp
    from Some c1 c2 k1 k2 show ?thesis
      by (auto simp: check_replica_def Let_def split: sum.splits)
  qed
  have reps: "clock (fst (fst (check_replicas w pc pm rgns m reps))) = clock w"
    for w pc pm rgns m reps
  proof (induction rgns arbitrary: w m reps)
    case Nil
    show ?case by simp
  next
    case (Cons rgn rest)
    obtain w1 m1 r1 where c: "check_replica w pc pm rgn m reps = ((w1, m1), r1)"
      by (cases "check_replica w pc pm rgn m reps") auto
    with rep [of w pc pm rgn m reps] have "clock w1 = clock w"
      by simp
    with c Cons.IH [of w1 m1] show ?case
      by (cases r1) simp_all
  qed
  have poll: "clock (fst (fst (check_replication_status w m))) = clock w" for w m
  proof (cases "map_of (connections m) ''us-west''")
    case None
    then show ?thesis by (simp add: check_replication_status_def)
  next
    case (Some c)
    obtain w1 r1 where c1: "fetch_count w c = (w1, r1)"
      by (cases "fetch_count w c")
    obtain w2 r2 where c2: "fetch_max_id w1 c = (w2, r2)"
      by (cases "fetch_max_id w1 c")
    from c1 cnt [of w c] have k1: "clock w1 = clock w"
      by simp
    from c2 mx [of w1 c] k1 have k2: "clock w2 = clock w"
      by simp
    have k3: "clock (fst (fst (check_replicas w2 pc pm replica_regions m []))) = clock w"
      for pc pm
      using reps [of w2 pc pm replica_regions m "[]"] k2 by simp
    show ?thesis
    proof (cases "cursor w c")
      case (Inl e)
      with Some show ?thesis by (simp add: check_replication_status_def)
    next
      case (Inr u)
      show ?thesis
      proof (cases r1)
        case (Inl e)
        with Some Inr c1 k1 show ?thesis by (simp add: check_replication_status_def)
      next
        case n: (Inr n)
        show ?thesis
        proof (cases r2)
          case (Inl e)
          with Some Inr c1 c2 n k2 show ?thesis by (simp add: check_replication_status_def)
        next
          case v: (Inr v)
          from Some Inr c1 c2 n v k3 [of n "or_zero v"] show ?thesis
            by (auto simp: check_replication_status_def Let_def split: prod.splits sum.splits)
        qed
      qed
    qed
  qed
  have chk: "clock (rs_world (fst (run_check_replication_status t))) = clock (rs_world t)" for t
    using poll [of "rs_world t" "rs_monitor t"]
    by (auto simp: run_check_replication_status_def split: prod.splits)
  have prt: "clock (rs_world (run_print_status st t)) = clock (rs_world t)" for st t
    by (auto simp: run_print_status_def split: prod.splits)
  have slp: "clock (rs_world (run_sleep n t)) = clock (rs_world t) + n * 1000" for n t
    by (simp add: run_sleep_def sleep_def)
  have "clock (rs_world x) = clock (rs_world s) + 5000"
    using step ok sw [of 5 s] chk [of "fst (run_simulate_writes 5 s)"] chk [of s]
    by (auto simp: tick_def Let_def prt slp split: if_splits prod.splits option.splits sum.splits)
  with running
  show "((start_time, duration, iteration + 1, x), (start_time, duration, iteration, s))
          \<in> measure (\<lambda>(start_time, duration, iteration, s).
                   nat (int start_time + duration * 1000 - int (clock (rs_world s))))"
    by simp
qed

declare run_loop.simps [simp del]

definition banner :: "string \<Rightarrow> string list" where
  "banner title = [[CHR 0x0A] @ rule80, title, rule80]"

definition summary :: "int \<Rightarrow> monitor \<Rightarrow> string list" where
  "summary duration m =
     banner ''MONITORING SUMMARY''
     @ [''Duration: '' @ str_int duration @ ''s'',
        ''Metrics Collected: '' @ str_nat (length (metrics_history m)),
        ''Total Alerts: '' @ str_nat (length (alerts m))]
     @ (if alerts m \<noteq> [] then
          [[CHR 0x0A] @ ''Alert Summary:'']
          @ map (\<lambda>a. ''  ['' @ take 19 (alert_timestamp a) @ ''] '' @ alert_region a
                       @ '': '' @ message a)
              (drop (length (alerts m) - 5) (alerts m))
        else [])
     @ [rule80]"

text \<open>The method returns normally (\<open>None\<close>) also when it gives up because not every
  region connected; an exception of \<^verbatim>\<open>setup_primary\<close> or of the loop leaves it
  at once, before the summary.\<close>

definition run_monitoring :: "int \<Rightarrow> world \<Rightarrow> monitor \<Rightarrow> run_state \<times> exn option" where
  "run_monitoring duration w m =
     (let s0 = run_print (banner ''MULTI-REGION REPLICATION MONITOR'')
                 \<lparr>rs_world = w, rs_monitor = m, rs_calls = [], rs_stdout = []\<rparr>
      in case run_connect_all s0 of
           (s1, False) \<Rightarrow> (s1, None)
         | (s1, True) \<Rightarrow>
             (case run_setup_primary s1 of
                (s2, Some e) \<Rightarrow> (s2, Some e)
              | (s2, None) \<Rightarrow>
                  (let s3 = run_sleep 3 s2;
                       start_time = clock (rs_world s3)
                   in case run_loop start_time duration 0 s3 of
                        (s4, Some e) \<Rightarrow> (s4, Some e)
                      | (s4, None) \<Rightarrow> (run_print (summary duration (rs_monitor s4)) s4, None))))"

text \<open>\<^verbatim>\<open>main\<close>\<close>

definition main :: "world \<Rightarrow> run_state \<times> exn option" where
  "main w = run_monitoring 30 w init"

section \<open>Notions used to state the properties\<close>

text \<open>None of the following is code of the monitor.\<close>

subsection \<open>The world between two moments\<close>

text \<open>From \<open>w\<close> to \<open>w'\<close> no time has passed, and what the world is given with (its
  environment, its calendar, its messages) is the same; the servers, the count of
  exchanges and the closed connections may differ.\<close>

definition stable :: "world \<Rightarrow> world \<Rightarrow> bool" where
  "stable w w' =
     (clock w' = clock w \<and> iso w' = iso w \<and> evolve w' = evolve w \<and> errtext w' = errtext w)"

text \<open>From \<open>w\<close> to \<open>w'\<close> no connection other than \<open>c\<close> was closed, and none was
  reopened.\<close>

definition closes_only :: "conn \<Rightarrow> world \<Rightarrow> world \<Rightarrow> bool" where
  "closes_only c w w' = (closed w \<subseteq> closed w' \<and> closed w' \<subseteq> insert (conn_id c) (closed w))"

subsection \<open>A poll\<close>

text \<open>\<open>alerts_for\<close> is the alert that goes with an entry of a status, \<open>entry_sound\<close> the
  relation of an entry to the primary's figures, \<open>held_open\<close> says that the monitor holds
  a connection for a region and that the connection is open, and \<open>conn_no\<close> is the number
  of the connection held for a region.\<close>

definition alerts_for :: "world \<Rightarrow> replica_status \<Rightarrow> alert list" where
  "alerts_for w e =
     (if \<not> has_error e \<and> \<not> is_healthy e then [alert_of w (region e) (lag_records e)] else [])"

definition entry_sound :: "int \<Rightarrow> int \<Rightarrow> replica_status \<Rightarrow> bool" where
  "entry_sound primary_count primary_max e =
     (if has_error e then \<not> is_healthy e
      else lag_records e = primary_count - record_count e
         \<and> lag_ids e = primary_max - max_id e
         \<and> is_healthy e = (lag_records e < 10))"

definition connected_to :: "monitor \<Rightarrow> string \<Rightarrow> bool" where
  "connected_to m rgn = (map_of (connections m) rgn \<noteq> None)"

definition held_open :: "world \<Rightarrow> monitor \<Rightarrow> string \<Rightarrow> bool" where
  "held_open w m rgn =
     (case map_of (connections m) rgn of
        None \<Rightarrow> False
      | Some c \<Rightarrow> is_open w c)"

definition conn_no :: "monitor \<Rightarrow> string \<Rightarrow> nat option" where
  "conn_no m rgn = map_option conn_id (map_of (connections m) rgn)"

text \<open>The test table exists on the server behind a connection and has no rows.\<close>

definition test_table_empty :: "world \<Rightarrow> conn \<Rightarrow> bool" where
  "test_table_empty w c =
     (case servers w (conn_host c, conn_port c) of
        None \<Rightarrow> False
      | Some db \<Rightarrow>
          (case db ''replication_test'' of
             None \<Rightarrow> False
           | Some tb \<Rightarrow> table_ids tb = []))"

text \<open>A list has only grown at its end.\<close>

definition extends :: "'a list \<Rightarrow> 'a list \<Rightarrow> bool" where
  "extends old new = (take (length old) new = old)"

subsection \<open>Connecting\<close>

text \<open>Whether \<^verbatim>\<open>psycopg2.connect\<close> returns a connection, for each of a list of
  endpoints tried one after the other.\<close>

fun attempts :: "world \<Rightarrow> endpoint list \<Rightarrow> bool list" where
  "attempts w [] = []"
| "attempts w (config # rest) =
     (case psycopg2_connect w (host config) (port config) of
        (w', Inl e) \<Rightarrow> False # attempts w' rest
      | (w', Inr c) \<Rightarrow> True # attempts w' rest)"

subsection \<open>Seeding\<close>

text \<open>What the script of \<^verbatim>\<open>setup_primary\<close> makes of a database: both tables new, the
  test table empty, the transactions table with the generated rows.\<close>

definition seeded :: "database \<Rightarrow> database" where
  "seeded db =
     db(''replication_test'' \<mapsto> \<lparr>table_ids = [], table_serial = 0\<rparr>,
        ''transactions'' \<mapsto> insert_rows 1000 \<lparr>table_ids = [], table_serial = 0\<rparr>)"

subsection \<open>The loop of \<^verbatim>\<open>run_monitoring\<close>\<close>

text \<open>The methods one pass of the loop invokes when nothing raises, by iteration number;
  the iteration numbers of \<open>n\<close> passes after iteration \<open>i\<close>; and the passes still to come
  when the loop started at clock value \<open>start_time\<close> is entered at clock value \<open>now\<close>.\<close>

definition tick_calls :: "int \<Rightarrow> call list" where
  "tick_calls iteration =
     (if iteration mod 2 = 0
      then [SimulateWrites 5, CheckReplicationStatus, PrintStatus, Sleep 5]
      else [CheckReplicationStatus, Sleep 5])"

fun iterations :: "int \<Rightarrow> nat \<Rightarrow> int list" where
  "iterations i 0 = []"
| "iterations i (Suc n) = (i + 1) # iterations (i + 1) n"

definition ticks_left :: "nat \<Rightarrow> int \<Rightarrow> nat \<Rightarrow> nat" where
  "ticks_left start_time duration now =
     (if int now - int start_time < duration * 1000
      then nat ((duration * 1000 - (int now - int start_time) + 4999) div 5000)
      else 0)"

text \<open>The specification's wording of the loop, for one pass: the pass either issues the
  five writes or polls, and not both.\<close>

definition writes_xor_poll :: "call list \<Rightarrow> bool" where
  "writes_xor_poll t = ((SimulateWrites 5 \<in> set t) \<noteq> (CheckReplicationStatus \<in> set t))"

text \<open>A state in which no pass of the loop raises: the environment leaves the servers
  alone, the monitor holds an open connection to the primary, which has the test table,
  and for each replica an open connection to a server that is up.\<close>

definition has_test_table :: "world \<Rightarrow> conn \<Rightarrow> bool" where
  "has_test_table w c =
     (case servers w (conn_host c, conn_port c) of
        None \<Rightarrow> False
      | Some db \<Rightarrow> db ''replication_test'' \<noteq> None)"

definition reachable :: "world \<Rightarrow> conn \<Rightarrow> bool" where
  "reachable w c = (servers w (conn_host c, conn_port c) \<noteq> None)"

definition ready :: "world \<Rightarrow> monitor \<Rightarrow> bool" where
  "ready w m =
     ((case map_of (connections m) ''us-west'' of
         None \<Rightarrow> False
       | Some c \<Rightarrow> is_open w c \<and> has_test_table w c)
      \<and> list_all (\<lambda>rgn. case map_of (connections m) rgn of
                           None \<Rightarrow> False
                         | Some c \<Rightarrow> is_open w c \<and> reachable w c) replica_regions
      \<and> evolve w = (\<lambda>t s. s))"

subsection \<open>Example worlds\<close>

text \<open>The text of every failure, the same in every exchange: the message PostgreSQL and
  \<^verbatim>\<open>libpq\<close> give, with the line of the statement and the caret under the relation for a
  \<^verbatim>\<open>SELECT\<close> on a missing table. For a failed connection attempt and for a failed
  \<^verbatim>\<open>INSERT\<close>, whose texts no status ever holds, only the first line is kept.\<close>

fun table_of :: "sql \<Rightarrow> string" where
  "table_of (DropTableIfExists t) = t"
| "table_of (CreateTable t) = t"
| "table_of (InsertGenerated t n) = t"
| "table_of (InsertValues t) = t"
| "table_of (SelectCount t) = t"
| "table_of (SelectMax t) = t"

definition newline :: string where
  "newline = [CHR 0x0A]"

definition tab :: string where
  "tab = [CHR 0x09]"

definition line_1 :: "string \<Rightarrow> string \<Rightarrow> string" where
  "line_1 before t =
     ''LINE 1: '' @ before @ t @ newline @
     replicate (length ''LINE 1: '' + length before) CHR '' '' @ ''^'' @ newline"

fun context_of :: "sql \<Rightarrow> string" where
  "context_of (SelectCount t) = line_1 (''SELECT COUNT('' @ ''*) FROM '') t"
| "context_of (SelectMax t) = line_1 ''SELECT MAX(id) FROM '' t"
| "context_of s = []"

fun server_text :: "failure \<Rightarrow> string" where
  "server_text (CannotConnect h p) = ''connection to server at \"'' @ h @ ''\" failed''"
| "server_text ConnectionLost =
     ''server closed the connection unexpectedly'' @ newline @
     tab @ ''This probably means the server terminated abnormally'' @ newline @
     tab @ ''before or while processing the request.'' @ newline"
| "server_text ConnectionClosed = ''connection already closed''"
| "server_text (UndefinedTable s) =
     ''relation \"'' @ table_of s @ ''\" does not exist'' @ newline @ context_of s"
| "server_text (DuplicateTable s) = ''relation \"'' @ table_of s @ ''\" already exists'' @ newline"

text \<open>A world after \<open>k\<close> exchanges, with no connection closed, at clock value 0.\<close>

definition example_world ::
  "nat \<Rightarrow> (nat \<Rightarrow> (address \<rightharpoonup> database) \<Rightarrow> (address \<rightharpoonup> database))
    \<Rightarrow> (address \<rightharpoonup> database) \<Rightarrow> world" where
  "example_world k ev srv =
     \<lparr>servers = srv, step = k, evolve = ev, closed = {}, clock = 0,
      iso = (\<lambda>t. ''2024-01-01T00:00:00''), errtext = (\<lambda>j. server_text)\<rparr>"

text \<open>An environment that leaves the servers alone, and one that takes the server at an
  address down right before exchange \<open>k\<close>.\<close>

definition quiet :: "nat \<Rightarrow> (address \<rightharpoonup> database) \<Rightarrow> (address \<rightharpoonup> database)" where
  "quiet j srv = srv"

definition goes_down ::
  "nat \<Rightarrow> address \<Rightarrow> nat \<Rightarrow> (address \<rightharpoonup> database) \<Rightarrow> (address \<rightharpoonup> database)" where
  "goes_down k a j srv = (if j = k then srv(a := None) else srv)"

text \<open>A table holding rows \<open>1..n\<close>, a database with only the test table, and three
  servers whose test tables hold \<open>a\<close>, \<open>b\<close> and \<open>c\<close> rows: the scenarios of the
  specification, scaled down.\<close>

definition table_upto :: "nat \<Rightarrow> table" where
  "table_upto n = \<lparr>table_ids = map int [1..<Suc n], table_serial = int n\<rparr>"

definition test_db :: "nat \<Rightarrow> database" where
  "test_db n = [''replication_test'' \<mapsto> table_upto n]"

definition three_servers :: "database \<Rightarrow> database \<Rightarrow> database \<Rightarrow> (address \<rightharpoonup> database)" where
  "three_servers p r1 r2 =
     [(''localhost'', 5441) \<mapsto> p, (''localhost'', 5442) \<mapsto> r1, (''localhost'', 5443) \<mapsto> r2]"

definition demo_world :: "nat \<Rightarrow> nat \<Rightarrow> nat \<Rightarrow> nat \<Rightarrow> world" where
  "demo_world k a b c = example_world k quiet (three_servers (test_db a) (test_db b) (test_db c))"

text \<open>Three reachable servers with nothing in their databases.\<close>

definition fresh_world :: "nat \<Rightarrow> world" where
  "fresh_world k = example_world k quiet (three_servers Map.empty Map.empty Map.empty)"

text \<open>The same after \<^verbatim>\<open>setup_primary\<close>.\<close>

definition seeded_world :: "nat \<Rightarrow> world" where
  "seeded_world k =
     example_world k quiet (three_servers (seeded Map.empty) Map.empty Map.empty)"

text \<open>Servers \<open>srv\<close>, of which the one at address \<open>a\<close> goes down right before exchange
  \<open>k\<close>: the world after \<open>j\<close> exchanges, with the connections \<open>cl\<close> closed. Then the
  servers used with it: all three with 60 rows in the test table, and the same with no
  test table on the first replica.\<close>

definition outage ::
  "(address \<rightharpoonup> database) \<Rightarrow> nat \<Rightarrow> address \<Rightarrow> nat set \<Rightarrow> nat \<Rightarrow> world" where
  "outage srv k a cl j =
     (example_world j (goes_down k a) (if j \<le> k then srv else srv(a := None)))
       \<lparr>closed := cl\<rparr>"

definition demo_servers :: "address \<rightharpoonup> database" where
  "demo_servers = three_servers (test_db 60) (test_db 60) (test_db 60)"

definition east_unseeded :: "address \<rightharpoonup> database" where
  "east_unseeded = three_servers (test_db 60) Map.empty (test_db 60)"

text \<open>The connections a \<^verbatim>\<open>connect_all\<close> opens in a world without earlier exchanges, and the
  monitor after it.\<close>

definition west :: conn where
  "west = \<lparr>conn_id = 0, conn_host = ''localhost'', conn_port = 5441, autocommit = True\<rparr>"

definition east :: conn where
  "east = \<lparr>conn_id = 1, conn_host = ''localhost'', conn_port = 5442, autocommit = True\<rparr>"

definition europe :: conn where
  "europe = \<lparr>conn_id = 2, conn_host = ''localhost'', conn_port = 5443, autocommit = True\<rparr>"

definition all_connected :: monitor where
  "all_connected =
     init\<lparr>connections := [(''us-west'', west), (''us-east'', east), (''eu-west'', europe)]\<rparr>"

text \<open>The monitor after a \<^verbatim>\<open>connect_all\<close> that could not reach the second replica.\<close>

definition partly_connected :: monitor where
  "partly_connected = init\<lparr>connections := [(''us-west'', west), (''us-east'', east)]\<rparr>"

definition demo_status :: "int \<Rightarrow> replica_status list \<Rightarrow> status" where
  "demo_status a reps =
     \<lparr>timestamp = ''2024-01-01T00:00:00'',
      primary = \<lparr>primary_region = ''us-west'', primary_record_count = a, primary_max_id = a\<rparr>,
      replicas = reps\<rparr>"

section \<open>Properties\<close>

subsection \<open>Exchanges with a server\<close>

lemma stable_refl: "stable w w"
  by (simp add: stable_def)

lemma stable_trans: "stable w w1 \<Longrightarrow> stable w1 w2 \<Longrightarrow> stable w w2"
  by (simp add: stable_def)

lemma closes_only_refl: "closes_only c w w"
  by (auto simp: closes_only_def)

lemma closes_only_trans: "closes_only c w w1 \<Longrightarrow> closes_only c w1 w2 \<Longrightarrow> closes_only c w w2"
  by (auto simp: closes_only_def)

lemma advance_frame:
  "stable w (advance w)" "closed (advance w) = closed w" "step (advance w) = Suc (step w)"
  by (simp_all add: stable_def advance_def)

lemma now_isoformat_stable: "stable w w' \<Longrightarrow> now_isoformat w' = now_isoformat w"
  by (simp add: stable_def now_isoformat_def)

lemma alert_of_stable: "stable w w' \<Longrightarrow> alert_of w' = alert_of w"
  by (intro ext) (simp add: alert_of_def now_isoformat_stable)

lemma alerts_for_stable: "stable w w' \<Longrightarrow> alerts_for w' = alerts_for w"
  by (intro ext) (simp add: alerts_for_def alert_of_stable)

lemma exchange_frame:
  assumes "exchange w c = (w', r)"
  shows "stable w w'" and "closes_only c w w'"
  using assms
  by (auto simp: exchange_def Let_def stable_def closes_only_def advance_def
      split: if_splits option.splits)

lemma exchange_answer:
  assumes "exchange w c = (w', Inr db)"
  shows "is_open w c" and "w' = advance w" and "servers w' (conn_host c, conn_port c) = Some db"
  using assms
  by (auto simp: exchange_def Let_def split: if_splits option.splits)

lemma exchange_open:
  assumes "is_open w c"
  shows "exchange w c =
           (case servers (advance w) (conn_host c, conn_port c) of
              None \<Rightarrow>
                ((advance w)\<lparr>closed := insert (conn_id c) (closed w)\<rparr>,
                 Inl (raise_of (advance w) ConnectionLost))
            | Some db \<Rightarrow> (advance w, Inr db))"
  using assms by (simp add: exchange_def Let_def advance_frame split: option.splits)

lemma fetch_count_frame:
  assumes "fetch_count w c = (w', r)"
  shows "stable w w'" and "closes_only c w w'"
proof -
  obtain w1 r1 where e: "exchange w c = (w1, r1)"
    by (cases "exchange w c")
  with assms have "w' = w1"
    by (auto simp: fetch_count_def split: sum.splits)
  with exchange_frame [OF e] show "stable w w'" and "closes_only c w w'"
    by simp_all
qed

lemma fetch_max_id_frame:
  assumes "fetch_max_id w c = (w', r)"
  shows "stable w w'" and "closes_only c w w'"
proof -
  obtain w1 r1 where e: "exchange w c = (w1, r1)"
    by (cases "exchange w c")
  with assms have "w' = w1"
    by (auto simp: fetch_max_id_def split: sum.splits)
  with exchange_frame [OF e] show "stable w w'" and "closes_only c w w'"
    by simp_all
qed

lemma fetch_count_answer:
  assumes "fetch_count w c = (w', Inr n)"
  shows "is_open w c" and "w' = advance w" and "closed w' = closed w"
proof -
  from assms obtain db where e: "exchange w c = (w', Inr db)"
    by (auto simp: fetch_count_def split: prod.splits sum.splits)
  from exchange_answer [OF e] show "is_open w c" and "w' = advance w"
    by simp_all
  then show "closed w' = closed w"
    by (simp add: advance_frame)
qed

lemma fetch_max_id_answer:
  assumes "fetch_max_id w c = (w', Inr v)"
  shows "is_open w c" and "w' = advance w" and "closed w' = closed w"
proof -
  from assms obtain db where e: "exchange w c = (w', Inr db)"
    by (auto simp: fetch_max_id_def split: prod.splits sum.splits)
  from exchange_answer [OF e] show "is_open w c" and "w' = advance w"
    by simp_all
  then show "closed w' = closed w"
    by (simp add: advance_frame)
qed

lemma execute_update_frame:
  assumes "execute_update w c script = (w', r)"
  shows "stable w w'" and "closes_only c w w'"
proof -
  obtain w1 r1 where e: "exchange w c = (w1, r1)"
    by (cases "exchange w c")
  note f = exchange_frame [OF e]
  from assms e have "stable w1 w' \<and> closed w' = closed w1"
    by (auto simp: execute_update_def stable_def split: sum.splits)
  with f show "stable w w'" and "closes_only c w w'"
    by (auto simp: stable_def closes_only_def)
qed

subsection \<open>The example worlds\<close>

lemma fold_max_upto: "i \<le> n \<Longrightarrow> fold max (map int [Suc i..<Suc n]) (int i) = int n"
proof (induction n)
  case 0
  then show ?case by simp
next
  case (Suc n)
  show ?case
  proof (cases "i = Suc n")
    case True
    then show ?thesis by simp
  next
    case False
    with Suc.prems have "i \<le> n" by simp
    with Suc.IH show ?thesis by simp
  qed
qed

lemma select_count_upto: "select_count ''replication_test'' (test_db n) = Inr (int n)"
  by (simp add: select_count_def test_db_def table_upto_def)

lemma select_max_upto:
  "select_max_id ''replication_test'' (test_db n) = Inr (if n = 0 then None else Some (int n))"
proof (cases n)
  case 0
  then show ?thesis by (simp add: select_max_id_def test_db_def table_upto_def)
next
  case (Suc k)
  have "[1..<Suc (Suc k)] = 1 # [Suc 1..<Suc (Suc k)]"
    by (simp add: upt_conv_Cons)
  then show ?thesis
    using fold_max_upto [of 1 "Suc k"] Suc
    by (simp add: select_max_id_def test_db_def table_upto_def del: upt_Suc)
qed

lemma advance_example:
  "advance (example_world k ev srv) = example_world (Suc k) ev (ev k srv)"
  by (simp add: advance_def example_world_def)

lemma open_example: "is_open (example_world k ev srv) c"
  by (simp add: is_open_def example_world_def)

lemma cursor_example: "cursor (example_world k ev srv) c = Inr ()"
  by (simp add: cursor_def open_example)

lemma now_example: "now_isoformat (example_world k ev srv) = ''2024-01-01T00:00:00''"
  by (simp add: now_isoformat_def example_world_def)

lemma alert_of_example: "alert_of (example_world k ev srv) = alert_of (example_world 0 quiet srv')"
  by (intro ext) (simp add: alert_of_def now_example)

lemma exchange_example:
  "exchange (example_world k ev srv) c =
     (case ev k srv (conn_host c, conn_port c) of
        None \<Rightarrow>
          ((example_world (Suc k) ev (ev k srv))\<lparr>closed := {conn_id c}\<rparr>,
           Inl (raise_of (example_world (Suc k) ev (ev k srv)) ConnectionLost))
      | Some db \<Rightarrow> (example_world (Suc k) ev (ev k srv), Inr db))"
proof -
  have srv: "servers (example_world (Suc k) ev (ev k srv)) = ev k srv"
    by (simp add: example_world_def)
  have cl: "closed (example_world j ev' srv') = {}" for j ev' srv'
    by (simp add: example_world_def)
  show ?thesis
    by (simp add: exchange_open [OF open_example] advance_example srv cl
        split: option.splits)
qed

lemma servers_three:
  "three_servers p r1 r2 (conn_host west, conn_port west) = Some p"
  "three_servers p r1 r2 (conn_host east, conn_port east) = Some r1"
  "three_servers p r1 r2 (conn_host europe, conn_port europe) = Some r2"
  by (simp_all add: three_servers_def west_def east_def europe_def)

lemma fetch_demo:
  "fetch_count (demo_world k a b c) west = (demo_world (Suc k) a b c, Inr (int a))"
  "fetch_count (demo_world k a b c) east = (demo_world (Suc k) a b c, Inr (int b))"
  "fetch_count (demo_world k a b c) europe = (demo_world (Suc k) a b c, Inr (int c))"
  "fetch_max_id (demo_world k a b c) west
     = (demo_world (Suc k) a b c, Inr (if a = 0 then None else Some (int a)))"
  "fetch_max_id (demo_world k a b c) east
     = (demo_world (Suc k) a b c, Inr (if b = 0 then None else Some (int b)))"
  "fetch_max_id (demo_world k a b c) europe
     = (demo_world (Suc k) a b c, Inr (if c = 0 then None else Some (int c)))"
  by (simp_all add: fetch_count_def fetch_max_id_def demo_world_def exchange_example quiet_def
      servers_three select_count_upto select_max_upto)

lemma errtext_example: "errtext (example_world k ev srv) j = server_text"
  by (simp add: example_world_def)

lemma fetch_fresh:
  "fetch_count (fresh_world k) west
     = (fresh_world (Suc k),
        Inl (ProgrammingError (server_text (UndefinedTable (SelectCount ''replication_test'')))))"
  "fetch_count (fresh_world k) east
     = (fresh_world (Suc k),
        Inl (ProgrammingError (server_text (UndefinedTable (SelectCount ''replication_test'')))))"
  by (simp_all add: fetch_count_def fresh_world_def exchange_example quiet_def servers_three
      select_count_def errtext_example)

lemma field_outage:
  "step (outage srv k a cl j) = j" "closed (outage srv k a cl j) = cl"
  "errtext (outage srv k a cl j) i = server_text"
  "now_isoformat (outage srv k a cl j) = ''2024-01-01T00:00:00''"
  by (simp_all add: outage_def example_world_def now_isoformat_def)

lemma advance_outage: "advance (outage srv k a cl j) = outage srv k a cl (Suc j)"
  by (simp add: advance_def outage_def example_world_def goes_down_def)

lemma servers_outage:
  "servers (outage srv k a cl j) = (if j \<le> k then srv else srv(a := None))"
  by (simp add: outage_def example_world_def)

lemma closed_outage: "(outage srv k a cl j)\<lparr>closed := cl'\<rparr> = outage srv k a cl' j"
  by (simp add: outage_def)

lemma exchange_outage:
  assumes "srv (conn_host c, conn_port c) = Some db"
  shows "exchange (outage srv k a cl j) c =
     (if conn_id c \<in> cl
      then (outage srv k a cl j, Inl (InterfaceError (server_text ConnectionClosed)))
      else if k \<le> j \<and> a = (conn_host c, conn_port c)
      then (outage srv k a (insert (conn_id c) cl) (Suc j),
            Inl (OperationalError (server_text ConnectionLost)))
      else (outage srv k a cl (Suc j), Inr db))"
  using assms
  by (simp add: exchange_def is_open_def field_outage advance_outage servers_outage
      closed_outage Let_def)

lemma cursor_outage:
  "cursor (outage srv k a cl j) c =
     (if conn_id c \<in> cl then Inl (InterfaceError (server_text ConnectionClosed)) else Inr ())"
  by (simp add: cursor_def is_open_def field_outage)

lemma servers_demo:
  "demo_servers (conn_host west, conn_port west) = Some (test_db 60)"
  "demo_servers (conn_host east, conn_port east) = Some (test_db 60)"
  "demo_servers (conn_host europe, conn_port europe) = Some (test_db 60)"
  by (simp_all add: demo_servers_def servers_three)

lemma servers_unseeded:
  "east_unseeded (conn_host west, conn_port west) = Some (test_db 60)"
  "east_unseeded (conn_host europe, conn_port europe) = Some (test_db 60)"
  by (simp_all add: east_unseeded_def servers_three)

lemma conn_fields:
  "conn_id west = 0" "conn_host west = ''localhost''" "conn_port west = 5441"
  "conn_id east = 1" "conn_host east = ''localhost''" "conn_port east = 5442"
  "conn_id europe = 2" "conn_host europe = ''localhost''" "conn_port europe = 5443"
  by (simp_all add: west_def east_def europe_def)

lemma fetch_outage:
  assumes "srv (conn_host c, conn_port c) = Some (test_db 60)"
  shows "fetch_count (outage srv k a cl j) c =
     (if conn_id c \<in> cl
      then (outage srv k a cl j, Inl (InterfaceError (server_text ConnectionClosed)))
      else if k \<le> j \<and> a = (conn_host c, conn_port c)
      then (outage srv k a (insert (conn_id c) cl) (Suc j),
            Inl (OperationalError (server_text ConnectionLost)))
      else (outage srv k a cl (Suc j), Inr 60))"
    and "fetch_max_id (outage srv k a cl j) c =
     (if conn_id c \<in> cl
      then (outage srv k a cl j, Inl (InterfaceError (server_text ConnectionClosed)))
      else if k \<le> j \<and> a = (conn_host c, conn_port c)
      then (outage srv k a (insert (conn_id c) cl) (Suc j),
            Inl (OperationalError (server_text ConnectionLost)))
      else (outage srv k a cl (Suc j), Inr (Some 60)))"
  by (simp_all add: fetch_count_def fetch_max_id_def exchange_outage [where srv = srv and c = c, OF assms]
      select_count_upto select_max_upto)

text \<open>On the first replica of \<open>east_unseeded\<close> the \<^verbatim>\<open>COUNT\<close> query finds no table.\<close>

lemma fetch_unseeded:
  assumes "conn_id east \<notin> cl" and "a \<noteq> (conn_host east, conn_port east)"
  shows "fetch_count (outage east_unseeded k a cl j) east =
     (outage east_unseeded k a cl (Suc j),
      Inl (ProgrammingError (server_text (UndefinedTable (SelectCount ''replication_test'')))))"
proof -
  have "east_unseeded (conn_host east, conn_port east) = Some Map.empty"
    by (simp add: east_unseeded_def servers_three)
  from exchange_outage [where srv = east_unseeded and c = east, OF this, of k a cl j] assms
  show ?thesis
    by (simp add: fetch_count_def select_count_def field_outage)
qed

lemma cursor_demo:
  "cursor (demo_world k a b c) conn = Inr ()" "cursor (fresh_world k) conn = Inr ()"
  by (simp_all add: demo_world_def fresh_world_def cursor_example)

lemma now_demo: "now_isoformat (demo_world k a b c) = ''2024-01-01T00:00:00''"
  by (simp add: demo_world_def now_example)

lemma alert_of_demo: "alert_of (demo_world k a b c) = alert_of (demo_world 0 a b c)"
  unfolding demo_world_def by (rule alert_of_example)

lemma lookup_all_connected:
  "map_of (connections all_connected) ''us-west'' = Some west"
  "map_of (connections all_connected) ''us-east'' = Some east"
  "map_of (connections all_connected) ''eu-west'' = Some europe"
  by (simp_all add: all_connected_def)

lemma poll_lagging:
  "check_replication_status (demo_world 3 60 50 0) all_connected =
     ((demo_world 9 60 50 0,
       all_connected
         \<lparr>metrics_history :=
            [demo_status 60 [ReplicaOk ''us-east'' 50 50 10 10 False,
                             ReplicaOk ''eu-west'' 0 0 60 60 False]],
          alerts := [alert_of (demo_world 0 60 50 0) ''us-east'' 10,
                     alert_of (demo_world 0 60 50 0) ''eu-west'' 60]\<rparr>),
      Inr (demo_status 60 [ReplicaOk ''us-east'' 50 50 10 10 False,
                           ReplicaOk ''eu-west'' 0 0 60 60 False]))"
  by (simp add: check_replication_status_def lookup_all_connected cursor_demo fetch_demo
      or_zero_def replica_regions_def check_replica_def create_alert_def demo_status_def
      now_demo Let_def alert_of_demo [of "Suc k" for k] eval_nat_numeral
      all_connected_def [THEN arg_cong, of alerts]
      all_connected_def [THEN arg_cong, of metrics_history] init_def)

lemma poll_in_sync:
  "check_replication_status (demo_world 3 60 60 60) all_connected =
     ((demo_world 9 60 60 60,
       all_connected
         \<lparr>metrics_history :=
            [demo_status 60 [ReplicaOk ''us-east'' 60 60 0 0 True,
                             ReplicaOk ''eu-west'' 60 60 0 0 True]]\<rparr>),
      Inr (demo_status 60 [ReplicaOk ''us-east'' 60 60 0 0 True,
                           ReplicaOk ''eu-west'' 60 60 0 0 True]))"
  by (simp add: check_replication_status_def lookup_all_connected cursor_demo fetch_demo
      or_zero_def replica_regions_def check_replica_def demo_status_def
      now_demo Let_def eval_nat_numeral
      all_connected_def [THEN arg_cong, of metrics_history] init_def)

lemma poll_empty:
  "check_replication_status (demo_world 3 0 0 0) all_connected =
     ((demo_world 9 0 0 0,
       all_connected
         \<lparr>metrics_history :=
            [demo_status 0 [ReplicaOk ''us-east'' 0 0 0 0 True,
                            ReplicaOk ''eu-west'' 0 0 0 0 True]]\<rparr>),
      Inr (demo_status 0 [ReplicaOk ''us-east'' 0 0 0 0 True,
                          ReplicaOk ''eu-west'' 0 0 0 0 True]))"
  by (simp add: check_replication_status_def lookup_all_connected cursor_demo fetch_demo
      or_zero_def replica_regions_def check_replica_def demo_status_def
      now_demo Let_def eval_nat_numeral
      all_connected_def [THEN arg_cong, of metrics_history] init_def)

subsection \<open>\<^verbatim>\<open>create_alert\<close>\<close>

lemma alerts_create_alert: "alerts (create_alert w rgn lag m) = alerts m @ [alert_of w rgn lag]"
  by (simp add: create_alert_def)

lemma create_alert_frame:
  "connections (create_alert w rgn lag m) = connections m"
  "metrics_history (create_alert w rgn lag m) = metrics_history m"
  "regions (create_alert w rgn lag m) = regions m"
  by (simp_all add: create_alert_def)

subsection \<open>One replica, then the loop over the replicas\<close>

text \<open>What \<open>check_replica\<close> does in every case: it raises and leaves the monitor alone,
  or it appends one entry for the region, sound with respect to the primary's figures,
  and the alert that goes with the entry.\<close>

lemma check_replica_cases:
  assumes "check_replica w pc pm rgn m reps = ((w', m'), r)"
  shows "stable w w'"
    and "connections m' = connections m \<and> metrics_history m' = metrics_history m
         \<and> regions m' = regions m"
    and "(\<exists>x. r = Inl x \<and> m' = m)
         \<or> (\<exists>e. r = Inr (reps @ [e]) \<and> region e = rgn \<and> entry_sound pc pm e
                \<and> alerts m' = alerts m @ alerts_for w e)"
proof -
  show "stable w w'"
  proof (cases "map_of (connections m) rgn")
    case None
    with assms show ?thesis by (simp add: check_replica_def stable_refl)
  next
    case (Some c)
    obtain w1 r1 where c1: "fetch_count w c = (w1, r1)"
      by (cases "fetch_count w c")
    obtain w2 r2 where c2: "fetch_max_id w1 c = (w2, r2)"
      by (cases "fetch_max_id w1 c")
    note s1 = fetch_count_frame(1) [OF c1]
    note s2 = stable_trans [OF s1 fetch_max_id_frame(1) [OF c2]]
    from assms Some c1 c2 have "w' = w \<or> w' = w1 \<or> w' = w2"
      by (auto simp: check_replica_def Let_def split: sum.splits if_splits)
    with s1 s2 show ?thesis
      by (auto simp: stable_refl)
  qed
  then have al: "alerts_for w' = alerts_for w" "alert_of w' = alert_of w"
    by (simp_all add: alerts_for_stable alert_of_stable)
  show "connections m' = connections m \<and> metrics_history m' = metrics_history m
      \<and> regions m' = regions m"
    using assms
    by (auto simp: check_replica_def Let_def create_alert_frame
        split: option.splits sum.splits prod.splits if_splits)
  show "(\<exists>x. r = Inl x \<and> m' = m)
      \<or> (\<exists>e. r = Inr (reps @ [e]) \<and> region e = rgn \<and> entry_sound pc pm e
             \<and> alerts m' = alerts m @ alerts_for w e)"
    using assms al
    by (auto simp: check_replica_def Let_def entry_sound_def alerts_for_def alerts_create_alert
        split: option.splits sum.splits prod.splits if_splits)
qed

lemma check_replicas_ok:
  assumes "check_replicas w pc pm rgns m reps = ((w', m'), Inr reps')"
  shows "\<exists>es. reps' = reps @ es \<and> map region es = rgns
            \<and> list_all (entry_sound pc pm) es
            \<and> alerts m' = alerts m @ concat (map (alerts_for w) es)
            \<and> connections m' = connections m
            \<and> metrics_history m' = metrics_history m
            \<and> regions m' = regions m
            \<and> stable w w'"
  using assms
proof (induction rgns arbitrary: w m reps)
  case Nil
  then show ?case by (simp add: stable_refl)
next
  case (Cons rgn rest)
  obtain w1 m1 r1 where step: "check_replica w pc pm rgn m reps = ((w1, m1), r1)"
    by (cases "check_replica w pc pm rgn m reps") auto
  with Cons.prems obtain reps1 where r1: "r1 = Inr reps1"
    and rest: "check_replicas w1 pc pm rest m1 reps1 = ((w', m'), Inr reps')"
    by (cases r1) auto
  note c = check_replica_cases [OF step]
  from c(3) r1 obtain e where e:
    "reps1 = reps @ [e]" "region e = rgn" "entry_sound pc pm e"
    "alerts m1 = alerts m @ alerts_for w e"
    by auto
  from Cons.IH [OF rest] obtain es where es:
    "reps' = reps1 @ es" "map region es = rest" "list_all (entry_sound pc pm) es"
    "alerts m' = alerts m1 @ concat (map (alerts_for w1) es)" "connections m' = connections m1"
    "metrics_history m' = metrics_history m1" "regions m' = regions m1" "stable w1 w'"
    by auto
  have "alerts_for w1 = alerts_for w"
    by (rule alerts_for_stable [OF c(1)])
  with e es c(2) stable_trans [OF c(1) es(8)] show ?case
    by (intro exI [of _ "e # es"]) simp
qed

lemma check_replicas_alerts:
  "extends (alerts m) (alerts (snd (fst (check_replicas w pc pm rgns m reps))))"
proof (induction rgns arbitrary: w m reps)
  case Nil
  then show ?case by (simp add: extends_def)
next
  case (Cons rgn rest)
  obtain w1 m1 r1 where step: "check_replica w pc pm rgn m reps = ((w1, m1), r1)"
    by (cases "check_replica w pc pm rgn m reps") auto
  from check_replica_cases(3) [OF step] have new1: "extends (alerts m) (alerts m1)"
    by (auto simp: extends_def)
  show ?case
  proof (cases r1)
    case (Inl e)
    with step new1 show ?thesis by simp
  next
    case (Inr reps1)
    from Cons.IH [of m1 w1 reps1] new1
    have "extends (alerts m) (alerts (snd (fst (check_replicas w1 pc pm rest m1 reps1))))"
      unfolding extends_def
      by (metis append_take_drop_id append_assoc append_eq_conv_conj)
    with step Inr show ?thesis by simp
  qed
qed

subsection \<open>A whole poll\<close>

lemma poll_returns:
  assumes "check_replication_status w m = ((w', m'), Inr st)"
  shows "\<exists>c w1 n w2 v m1 reps.
           map_of (connections m) ''us-west'' = Some c \<and> is_open w c
           \<and> fetch_count w c = (w1, Inr n) \<and> fetch_max_id w1 c = (w2, Inr v)
           \<and> check_replicas w2 n (or_zero v) replica_regions m [] = ((w', m1), Inr reps)
           \<and> st = \<lparr>timestamp = now_isoformat w2,
                    primary = \<lparr>primary_region = ''us-west'', primary_record_count = n,
                               primary_max_id = or_zero v\<rparr>,
                    replicas = reps\<rparr>
           \<and> m' = m1\<lparr>metrics_history := metrics_history m1 @ [st]\<rparr>"
  using assms
  by (auto simp: check_replication_status_def cursor_def Let_def
      split: option.splits sum.splits prod.splits if_splits)

lemma poll_ok:
  assumes "check_replication_status w m = ((w', m'), Inr st)"
  shows "map region (replicas st) = replica_regions
       \<and> list_all (entry_sound (primary_record_count (primary st)) (primary_max_id (primary st)))
            (replicas st)
       \<and> alerts m' = alerts m @ concat (map (alerts_for w) (replicas st))
       \<and> metrics_history m' = metrics_history m @ [st]
       \<and> connections m' = connections m \<and> regions m' = regions m
       \<and> stable w w'"
proof -
  from poll_returns [OF assms] obtain c w1 n w2 v m1 reps where p:
    "fetch_count w c = (w1, Inr n)" "fetch_max_id w1 c = (w2, Inr v)"
    "check_replicas w2 n (or_zero v) replica_regions m [] = ((w', m1), Inr reps)"
    "st = \<lparr>timestamp = now_isoformat w2,
           primary = \<lparr>primary_region = ''us-west'', primary_record_count = n,
                      primary_max_id = or_zero v\<rparr>,
           replicas = reps\<rparr>"
    "m' = m1\<lparr>metrics_history := metrics_history m1 @ [st]\<rparr>"
    by blast
  have s2: "stable w w2"
    by (rule stable_trans [OF fetch_count_frame(1) [OF p(1)] fetch_max_id_frame(1) [OF p(2)]])
  then have "alerts_for w2 = alerts_for w"
    by (rule alerts_for_stable)
  with check_replicas_ok [OF p(3)] p(4,5) s2 show ?thesis
    by (auto intro: stable_trans)
qed

lemma poll_alerts:
  "extends (alerts m) (alerts (snd (fst (check_replication_status w m))))"
proof -
  have loop: "extends (alerts m) (alerts (snd (fst (check_replicas w2 pc pm rgns m []))))"
    for w2 pc pm rgns
    by (rule check_replicas_alerts)
  have same: "extends (alerts m) (alerts m)"
    by (simp add: extends_def)
  show ?thesis
  proof (cases "map_of (connections m) ''us-west''")
    case None
    then show ?thesis by (simp add: check_replication_status_def same)
  next
    case (Some c)
    obtain w1 r1 where c1: "fetch_count w c = (w1, r1)"
      by (cases "fetch_count w c")
    obtain w2 r2 where c2: "fetch_max_id w1 c = (w2, r2)"
      by (cases "fetch_max_id w1 c")
    show ?thesis
    proof (cases "cursor w c")
      case (Inl e)
      with Some show ?thesis by (simp add: check_replication_status_def same)
    next
      case (Inr u)
      show ?thesis
      proof (cases r1)
        case (Inl e)
        with Some Inr c1 show ?thesis by (simp add: check_replication_status_def same)
      next
        case n: (Inr n)
        show ?thesis
        proof (cases r2)
          case (Inl e)
          with Some Inr c1 c2 n show ?thesis by (simp add: check_replication_status_def same)
        next
          case v: (Inr v)
          from Some Inr c1 c2 n v loop [of w2 n "or_zero v" replica_regions] show ?thesis
            by (auto simp: check_replication_status_def Let_def split: prod.splits sum.splits)
        qed
      qed
    qed
  qed
qed

lemma filter_alerts_for:
  assumes "distinct (map region es)" and "e \<in> set es"
  shows "filter (\<lambda>a. alert_region a = region e) (concat (map (alerts_for w) es)) = alerts_for w e"
  using assms
proof (induction es)
  case Nil
  then show ?case by simp
next
  case (Cons x xs)
  have other: "filter (\<lambda>a. alert_region a = r) (alerts_for w y) = []" if "region y \<noteq> r" for y r
    using that by (simp add: alerts_for_def alert_of_def)
  have own: "filter (\<lambda>a. alert_region a = region y) (alerts_for w y) = alerts_for w y" for y
    by (simp add: alerts_for_def alert_of_def)
  have none: "filter (\<lambda>a. alert_region a = r) (concat (map (alerts_for w) ys)) = []"
    if "r \<notin> region ` set ys" for r ys
    using that by (induction ys) (auto simp: other)
  show ?case
  proof (cases "e = x")
    case True
    with Cons.prems show ?thesis by (simp add: own none)
  next
    case False
    with Cons.prems have "e \<in> set xs" "region x \<noteq> region e" by auto
    with Cons show ?thesis by (simp add: other)
  qed
qed

subsection \<open>The claims about a poll and its alerts\<close>

text \<open>
  Claim C1. In a poll that returns a status, an entry that is not the error variant (the
  replica's two queries succeeded) and whose \<open>lag_records\<close> is at least 10 has
  \<open>is_healthy = False\<close>; the poll only appends to the alert list, and of the alerts it
  appends exactly one is for that replica's region, with \<open>lag_count\<close> equal to the entry's
  \<open>lag_records\<close>.
\<close>

theorem lagging_replica_alert:
  assumes "check_replication_status w m = ((w', m'), Inr st)"
    and "e \<in> set (replicas st)" and "\<not> has_error e" and "10 \<le> lag_records e"
  shows "\<not> is_healthy e
       \<and> take (length (alerts m)) (alerts m') = alerts m
       \<and> (\<exists>a. filter (\<lambda>a. alert_region a = region e) (drop (length (alerts m)) (alerts m')) = [a]
              \<and> lag_count a = lag_records e)"
proof -
  note ok = poll_ok [OF assms(1)]
  from ok assms(2) have sound:
    "entry_sound (primary_record_count (primary st)) (primary_max_id (primary st)) e"
    by (simp add: list_all_iff)
  with assms(3,4) have unhealthy: "\<not> is_healthy e"
    by (simp add: entry_sound_def)
  from ok have "distinct (map region (replicas st))"
    by (simp add: replica_regions_def)
  from filter_alerts_for [OF this assms(2)] ok
  have "filter (\<lambda>a. alert_region a = region e) (drop (length (alerts m)) (alerts m'))
          = alerts_for w e"
    by simp
  with unhealthy assms(3) ok show ?thesis
    by (simp add: alerts_for_def alert_of_def)
qed

theorem lagging_replica_alert_witness:
  "ReplicaOk ''eu-west'' 0 0 60 60 False
     \<in> set (replicas (demo_status 60 [ReplicaOk ''us-east'' 50 50 10 10 False,
                                       ReplicaOk ''eu-west'' 0 0 60 60 False]))
   \<and> \<not> has_error (ReplicaOk ''eu-west'' 0 0 60 60 False)
   \<and> 10 \<le> lag_records (ReplicaOk ''eu-west'' 0 0 60 60 False)
   \<and> \<not> is_healthy (ReplicaOk ''eu-west'' 0 0 60 60 False)
   \<and> (\<exists>a. filter (\<lambda>a. alert_region a = ''eu-west'')
             (drop (length (alerts all_connected))
                (alerts (snd (fst (check_replication_status (demo_world 3 60 50 0)
                                     all_connected))))) = [a]
          \<and> lag_count a = 60)"
  using lagging_replica_alert [OF poll_lagging, of "ReplicaOk ''eu-west'' 0 0 60 60 False"]
  by (simp add: demo_status_def poll_lagging)

text \<open>
  Claim C2. The alert that \<^verbatim>\<open>create_alert\<close> appends for lag \<open>L\<close> has severity
  \<^verbatim>\<open>WARNING\<close> when \<open>L < 50\<close> and \<^verbatim>\<open>CRITICAL\<close> when \<open>L \<ge> 50\<close>.
\<close>

theorem create_alert_severity:
  "(lag < 50 \<longrightarrow> severity (last (alerts (create_alert w rgn lag m))) = ''WARNING'') \<and>
   (50 \<le> lag \<longrightarrow> severity (last (alerts (create_alert w rgn lag m))) = ''CRITICAL'')"
  by (simp add: alerts_create_alert alert_of_def)

theorem create_alert_severity_witness:
  "(10::int) < 50
   \<and> severity (last (alerts (create_alert (demo_world 7 60 50 0) ''us-east'' 10 init)))
       = ''WARNING''
   \<and> (50::int) \<le> 60
   \<and> severity (last (alerts (create_alert (demo_world 9 60 50 0) ''eu-west'' 60 init)))
       = ''CRITICAL''"
  using create_alert_severity [of 10 "demo_world 7 60 50 0" "''us-east''" init]
        create_alert_severity [of 60 "demo_world 9 60 50 0" "''eu-west''" init]
  by simp

text \<open>
  Claim C7. In a poll that returns a status, an entry that is not the error variant and
  whose \<open>record_count\<close> and \<open>max_id\<close> equal the primary's has \<open>lag_records = 0\<close>,
  \<open>lag_ids = 0\<close> and \<open>is_healthy = True\<close>.
\<close>

theorem in_sync_replica_healthy:
  assumes "check_replication_status w m = ((w', m'), Inr st)"
    and "e \<in> set (replicas st)" and "\<not> has_error e"
    and "record_count e = primary_record_count (primary st)"
    and "max_id e = primary_max_id (primary st)"
  shows "lag_records e = 0 \<and> lag_ids e = 0 \<and> is_healthy e"
proof -
  from poll_ok [OF assms(1)] assms(2) have
    "entry_sound (primary_record_count (primary st)) (primary_max_id (primary st)) e"
    by (simp add: list_all_iff)
  with assms(3-5) show ?thesis
    by (simp add: entry_sound_def)
qed

theorem in_sync_replica_healthy_witness:
  "check_replication_status (demo_world 3 60 60 60) all_connected =
     ((demo_world 9 60 60 60,
       all_connected
         \<lparr>metrics_history :=
            [demo_status 60 [ReplicaOk ''us-east'' 60 60 0 0 True,
                             ReplicaOk ''eu-west'' 60 60 0 0 True]]\<rparr>),
      Inr (demo_status 60 [ReplicaOk ''us-east'' 60 60 0 0 True,
                           ReplicaOk ''eu-west'' 60 60 0 0 True]))
   \<and> ReplicaOk ''us-east'' 60 60 0 0 True
       \<in> set (replicas (demo_status 60 [ReplicaOk ''us-east'' 60 60 0 0 True,
                                         ReplicaOk ''eu-west'' 60 60 0 0 True]))
   \<and> record_count (ReplicaOk ''us-east'' 60 60 0 0 True)
       = primary_record_count (primary (demo_status 60 [ReplicaOk ''us-east'' 60 60 0 0 True,
                                         ReplicaOk ''eu-west'' 60 60 0 0 True]))
   \<and> lag_records (ReplicaOk ''us-east'' 60 60 0 0 True) = 0
   \<and> lag_ids (ReplicaOk ''us-east'' 60 60 0 0 True) = 0
   \<and> is_healthy (ReplicaOk ''us-east'' 60 60 0 0 True)"
  using in_sync_replica_healthy [OF poll_in_sync, of "ReplicaOk ''us-east'' 60 60 0 0 True"]
  by (simp add: demo_status_def poll_in_sync)

text \<open>
  Claim C10. An exception of the primary's \<^verbatim>\<open>COUNT\<close> or \<^verbatim>\<open>MAX(id)\<close> query is not
  caught: \<^verbatim>\<open>check_replication_status\<close> raises it, and the monitor is as it was, with
  no status appended to the history and no alert appended. The two queries are separate
  exchanges with the server, so the second can fail after the first has been answered.
\<close>

theorem primary_failure_propagates:
  assumes "map_of (connections m) ''us-west'' = Some c"
    and "fetch_count w c = (w', Inl e)
       \<or> (\<exists>w1 n. fetch_count w c = (w1, Inr n) \<and> fetch_max_id w1 c = (w', Inl e))"
  shows "check_replication_status w m = ((w', m), Inl e)"
proof (cases "is_open w c")
  case True
  with assms show ?thesis
    by (auto simp: check_replication_status_def cursor_def)
next
  case False
  then have "fetch_count w c = (w, Inl (raise_of w ConnectionClosed))"
    by (simp add: fetch_count_def exchange_def)
  with assms(2) have "w' = w" "e = raise_of w ConnectionClosed"
    by auto
  with assms(1) False show ?thesis
    by (simp add: check_replication_status_def cursor_def)
qed

theorem primary_failure_propagates_witness:
  "map_of (connections all_connected) ''us-west'' = Some west
   \<and> fetch_count (fresh_world 3) west
       = (fresh_world 4,
          Inl (ProgrammingError
                 (server_text (UndefinedTable (SelectCount ''replication_test'')))))
   \<and> check_replication_status (fresh_world 3) all_connected
       = ((fresh_world 4, all_connected),
          Inl (ProgrammingError
                 (server_text (UndefinedTable (SelectCount ''replication_test'')))))
   \<and> fetch_count (outage demo_servers 4 (''localhost'', 5441) {} 3) west
       = (outage demo_servers 4 (''localhost'', 5441) {} 4, Inr 60)
   \<and> fetch_max_id (outage demo_servers 4 (''localhost'', 5441) {} 4) west
       = (outage demo_servers 4 (''localhost'', 5441) {0} 5,
          Inl (OperationalError (server_text ConnectionLost)))
   \<and> check_replication_status (outage demo_servers 4 (''localhost'', 5441) {} 3)
         all_connected
       = ((outage demo_servers 4 (''localhost'', 5441) {0} 5, all_connected),
          Inl (OperationalError (server_text ConnectionLost)))"
  using primary_failure_propagates [of all_connected west "fresh_world 3" "fresh_world 4"
      "ProgrammingError (server_text (UndefinedTable (SelectCount ''replication_test'')))"]
    primary_failure_propagates [of all_connected west
      "outage demo_servers 4 (''localhost'', 5441) {} 3"
      "outage demo_servers 4 (''localhost'', 5441) {0} 5"
      "OperationalError (server_text ConnectionLost)"]
  by (simp add: lookup_all_connected fetch_fresh(1) [of 3]
      fetch_outage [where srv = demo_servers and c = west, OF servers_demo(1), of 4 _ "{}" 3]
      fetch_outage [where srv = demo_servers and c = west, OF servers_demo(1), of 4 _ "{}" 4] conn_fields)

subsection \<open>A replica that fails\<close>

lemma check_replicas_append:
  "check_replicas w pc pm (xs @ ys) m reps =
     (case check_replicas w pc pm xs m reps of
        ((w', m'), Inl e) \<Rightarrow> ((w', m'), Inl e)
      | ((w', m'), Inr reps') \<Rightarrow> check_replicas w' pc pm ys m' reps')"
  by (induction xs arbitrary: w m reps) (auto split: prod.splits sum.splits)

lemma check_replica_failure:
  assumes "map_of (connections m) rgn = Some c" and "is_open w c"
    and "fetch_count w c = (w', Inl e)
       \<or> (\<exists>w1 k. fetch_count w c = (w1, Inr k) \<and> fetch_max_id w1 c = (w', Inl e))"
  shows "check_replica w pc pm rgn m reps
           = ((w', m), Inr (reps @ [ReplicaError rgn (str_exn e) False]))"
  using assms by (auto simp: check_replica_def cursor_def)

lemma check_replica_held:
  assumes "map_of (connections m) rgn = Some c" and "is_open w c"
  shows "\<exists>w' m' e. check_replica w pc pm rgn m reps = ((w', m'), Inr (reps @ [e]))
           \<and> closes_only c w w' \<and> connections m' = connections m"
proof -
  obtain w1 r1 where c1: "fetch_count w c = (w1, r1)"
    by (cases "fetch_count w c")
  obtain w2 r2 where c2: "fetch_max_id w1 c = (w2, r2)"
    by (cases "fetch_max_id w1 c")
  note f1 = fetch_count_frame(2) [OF c1]
  note f2 = closes_only_trans [OF f1 fetch_max_id_frame(2) [OF c2]]
  show ?thesis
  proof (cases r1)
    case (Inl x)
    with assms c1 f1 show ?thesis
      by (simp add: check_replica_def cursor_def)
  next
    case r1: (Inr k)
    show ?thesis
    proof (cases r2)
      case (Inl x)
      with assms c1 c2 r1 f2 show ?thesis
        by (simp add: check_replica_def cursor_def)
    next
      case (Inr v)
      with assms c1 c2 r1 f2 show ?thesis
        by (simp add: check_replica_def cursor_def Let_def create_alert_frame)
    qed
  qed
qed

lemma held_open_later:
  assumes "held_open w m r" and "closed w' \<subseteq> closed w \<union> S"
    and "\<forall>i\<in>S. conn_no m r \<noteq> Some i" and "connections m' = connections m"
  shows "held_open w' m' r"
  using assms
  by (auto simp: held_open_def conn_no_def is_open_def split: option.splits)

text \<open>The loop over replicas whose connections are open and are different objects: it
  raises nothing, and closes no connection but theirs.\<close>

lemma check_replicas_held:
  assumes "list_all (held_open w m) rgns" and "distinct (map (conn_no m) rgns)"
  shows "\<exists>w' m' es. check_replicas w pc pm rgns m reps = ((w', m'), Inr (reps @ es))
           \<and> connections m' = connections m
           \<and> closed w' \<subseteq> closed w \<union> {i. Some i \<in> conn_no m ` set rgns}"
  using assms
proof (induction rgns arbitrary: w m reps)
  case Nil
  then show ?case by simp
next
  case (Cons rgn rest)
  from Cons.prems(1) obtain c where c: "map_of (connections m) rgn = Some c" "is_open w c"
    by (auto simp: held_open_def split: option.splits)
  from check_replica_held [OF c] obtain w1 m1 e where step:
    "check_replica w pc pm rgn m reps = ((w1, m1), Inr (reps @ [e]))"
    "closes_only c w w1" "connections m1 = connections m"
    by blast
  have no: "conn_no m1 = conn_no m"
    using step(3) by (intro ext) (simp add: conn_no_def)
  from step(2) have cl1: "closed w1 \<subseteq> closed w \<union> {conn_id c}"
    by (auto simp: closes_only_def)
  have "held_open w1 m1 r" if "r \<in> set rest" for r
  proof (rule held_open_later [OF _ cl1 _ step(3)])
    from that Cons.prems(1) show "held_open w m r"
      by (simp add: list_all_iff)
    from c(1) have "conn_no m rgn = Some (conn_id c)"
      by (simp add: conn_no_def)
    moreover from Cons.prems(2) have "conn_no m rgn \<notin> conn_no m ` set rest"
      by simp
    ultimately show "\<forall>i\<in>{conn_id c}. conn_no m r \<noteq> Some i"
      using that by (metis imageI singletonD)
  qed
  then have held: "list_all (held_open w1 m1) rest"
    by (simp add: list_all_iff)
  from Cons.prems(2) no have dist: "distinct (map (conn_no m1) rest)"
    by simp
  from Cons.IH [OF held dist, of "reps @ [e]"] obtain w' m' es where rest:
    "check_replicas w1 pc pm rest m1 (reps @ [e]) = ((w', m'), Inr ((reps @ [e]) @ es))"
    "connections m' = connections m1"
    "closed w' \<subseteq> closed w1 \<union> {i. Some i \<in> conn_no m1 ` set rest}"
    by blast
  from c(1) have "conn_no m rgn = Some (conn_id c)"
    by (simp add: conn_no_def)
  with rest(3) cl1 no
  have "closed w' \<subseteq> closed w \<union> {i. Some i \<in> conn_no m ` set (rgn # rest)}"
    by auto
  with step rest show ?case
    by (intro exI [of _ w'] exI [of _ m'] exI [of _ "e # es"]) simp
qed

lemma poll_of_loop:
  assumes "map_of (connections m) ''us-west'' = Some c0"
    and "fetch_count w c0 = (w1, Inr n)" and "fetch_max_id w1 c0 = (w2, Inr v)"
    and "check_replicas w2 n (or_zero v) replica_regions m [] = ((w', m1), Inr reps)"
  shows "\<exists>m' st. check_replication_status w m = ((w', m'), Inr st) \<and> replicas st = reps"
  using assms fetch_count_answer(1) [OF assms(2)]
  by (simp add: check_replication_status_def cursor_def Let_def)

lemma lookup_partly_connected:
  "map_of (connections partly_connected) ''us-west'' = Some west"
  "map_of (connections partly_connected) ''us-east'' = Some east"
  "map_of (connections partly_connected) ''eu-west'' = None"
  by (simp_all add: partly_connected_def)

lemma held_all_connected:
  "list_all (held_open (outage srv k a {} j) all_connected) replica_regions"
  "distinct (map (conn_no all_connected) replica_regions)"
  by (simp_all add: replica_regions_def held_open_def conn_no_def lookup_all_connected
      is_open_def field_outage conn_fields)

text \<open>
  Claim C3, as stated, fails: the lookup of a replica's connection and the call
  \<^verbatim>\<open>replica_conn.cursor()\<close> stand before the \<^verbatim>\<open>try\<close>. In both polls below the
  \<^verbatim>\<open>COUNT\<close> query of \<^verbatim>\<open>us-east\<close> raises, for want of the table, and the poll goes on
  to \<^verbatim>\<open>eu-west\<close>. In the first, of a monitor whose \<^verbatim>\<open>connect_all\<close> could not reach
  \<^verbatim>\<open>eu-west\<close>, the lookup raises \<^verbatim>\<open>KeyError\<close>. In the second, the connection to
  \<^verbatim>\<open>eu-west\<close> was closed when its server went down during the poll before, which
  recorded that as an error entry and returned; now \<^verbatim>\<open>cursor()\<close> raises
  \<^verbatim>\<open>InterfaceError\<close>. Either exception leaves the method: nothing is returned and
  nothing is appended to the history.
\<close>

theorem replica_failure_poll_aborts:
  "fetch_count (outage east_unseeded 2 (''localhost'', 5443) {} 5) east
     = (outage east_unseeded 2 (''localhost'', 5443) {} 6,
        Inl (ProgrammingError (server_text (UndefinedTable (SelectCount ''replication_test'')))))
   \<and> check_replication_status (outage east_unseeded 2 (''localhost'', 5443) {} 3)
         partly_connected
       = ((outage east_unseeded 2 (''localhost'', 5443) {} 6, partly_connected),
          Inl (KeyError ''eu-west''))
   \<and> check_replication_status (outage east_unseeded 6 (''localhost'', 5443) {} 3)
         all_connected
       = ((outage east_unseeded 6 (''localhost'', 5443) {2} 7,
           all_connected\<lparr>metrics_history := [demo_status 60
              [ReplicaError ''us-east''
                 (server_text (UndefinedTable (SelectCount ''replication_test''))) False,
               ReplicaError ''eu-west'' (server_text ConnectionLost) False]]\<rparr>),
          Inr (demo_status 60
              [ReplicaError ''us-east''
                 (server_text (UndefinedTable (SelectCount ''replication_test''))) False,
               ReplicaError ''eu-west'' (server_text ConnectionLost) False]))
   \<and> fetch_count (outage east_unseeded 6 (''localhost'', 5443) {2} 9) east
       = (outage east_unseeded 6 (''localhost'', 5443) {2} 10,
          Inl (ProgrammingError
                 (server_text (UndefinedTable (SelectCount ''replication_test'')))))
   \<and> check_replication_status (outage east_unseeded 6 (''localhost'', 5443) {2} 7)
         (all_connected\<lparr>metrics_history := [demo_status 60
              [ReplicaError ''us-east''
                 (server_text (UndefinedTable (SelectCount ''replication_test''))) False,
               ReplicaError ''eu-west'' (server_text ConnectionLost) False]]\<rparr>)
       = ((outage east_unseeded 6 (''localhost'', 5443) {2} 10,
           all_connected\<lparr>metrics_history := [demo_status 60
              [ReplicaError ''us-east''
                 (server_text (UndefinedTable (SelectCount ''replication_test''))) False,
               ReplicaError ''eu-west'' (server_text ConnectionLost) False]]\<rparr>),
          Inl (InterfaceError (server_text ConnectionClosed)))"
proof -
  have fields: "metrics_history all_connected = []" "alerts all_connected = []"
    by (simp_all add: all_connected_def init_def)
  note west = fetch_outage [where srv = east_unseeded and c = west, OF servers_unseeded(1)]
  note europe = fetch_outage [where srv = east_unseeded and c = europe, OF servers_unseeded(2)]
  note east = fetch_unseeded
  show ?thesis
    by (simp add: check_replication_status_def check_replica_def replica_regions_def
        lookup_all_connected lookup_partly_connected cursor_outage west europe east
        conn_fields field_outage or_zero_def demo_status_def Let_def fields)
qed

text \<open>
  Claim C3, amended. In a poll whose primary queries succeed, of a monitor that holds for
  every replica a connection of its own that is open when the poll begins, a replica whose
  \<^verbatim>\<open>COUNT\<close> or \<^verbatim>\<open>MAX(id)\<close> query raises gets the error entry, with the exception's
  text and \<open>is_healthy = False\<close>; the poll still has an entry for every replica, returns
  the status and appends it to the history. Here \<open>w3\<close> is the world in which the poll
  turns to the replica, after the replicas \<open>before\<close> it.
\<close>

theorem replica_failure_recorded:
  assumes "map_of (connections m) ''us-west'' = Some c0"
    and "fetch_count w c0 = (w1, Inr n)" and "fetch_max_id w1 c0 = (w2, Inr v)"
    and "list_all (held_open w m) replica_regions"
    and "distinct (map (conn_no m) replica_regions)"
    and "replica_regions = before @ rgn # after"
    and "check_replicas w2 n (or_zero v) before m [] = ((w3, m3), Inr reps3)"
    and "map_of (connections m) rgn = Some c"
    and "fetch_count w3 c = (w5, Inl e)
       \<or> (\<exists>w4 k. fetch_count w3 c = (w4, Inr k) \<and> fetch_max_id w4 c = (w5, Inl e))"
  shows "\<exists>w' m' st. check_replication_status w m = ((w', m'), Inr st)
           \<and> metrics_history m' = metrics_history m @ [st]
           \<and> map region (replicas st) = replica_regions
           \<and> ReplicaError rgn (str_exn e) False \<in> set (replicas st)"
proof -
  have cl2: "closed w2 = closed w"
    using fetch_count_answer(3) [OF assms(2)] fetch_max_id_answer(3) [OF assms(3)] by simp
  have held2: "held_open w2 m r" if "r \<in> set before \<union> {rgn} \<union> set after" for r
  proof -
    from that have "r \<in> set replica_regions"
      by (simp only: assms(6)) auto
    with assms(4) cl2 show ?thesis
      by (auto simp: list_all_iff held_open_def is_open_def split: option.splits)
  qed
  from assms(5) have "distinct (map (conn_no m) (before @ rgn # after))"
    by (simp only: assms(6))
  then have dist:
    "distinct (map (conn_no m) before)" "distinct (map (conn_no m) after)"
    "conn_no m rgn \<notin> conn_no m ` set before" "conn_no m rgn \<notin> conn_no m ` set after"
    "conn_no m ` set before \<inter> conn_no m ` set after = {}"
    by auto
  from assms(8) have no: "conn_no m rgn = Some (conn_id c)"
    by (simp add: conn_no_def)
  from held2 have "list_all (held_open w2 m) before"
    by (simp add: list_all_iff)
  from check_replicas_held [OF this dist(1), of n "or_zero v" "[]"] assms(7)
  have b: "connections m3 = connections m"
    "closed w3 \<subseteq> closed w2 \<union> {i. Some i \<in> conn_no m ` set before}"
    by auto
  have no3: "conn_no m3 = conn_no m"
    using b(1) by (intro ext) (simp add: conn_no_def)
  have "held_open w3 m3 rgn"
  proof (rule held_open_later [OF _ b(2) _ b(1)])
    show "held_open w2 m rgn" by (rule held2) simp
    from dist(3) show "\<forall>i\<in>{i. Some i \<in> conn_no m ` set before}. conn_no m rgn \<noteq> Some i"
      by auto
  qed
  with assms(8) b(1) have open3: "is_open w3 c"
    by (simp add: held_open_def)
  from assms(8) b(1) have look3: "map_of (connections m3) rgn = Some c"
    by simp
  note fail = check_replica_failure [OF look3 open3 assms(9), of n "or_zero v" reps3]
  have "closes_only c w3 w5"
    using assms(9) fetch_count_frame(2) fetch_max_id_frame(2) closes_only_trans by blast
  then have cl5: "closed w5 \<subseteq> closed w2 \<union> ({i. Some i \<in> conn_no m ` set before} \<union> {conn_id c})"
    using b(2) by (auto simp: closes_only_def)
  have "held_open w5 m3 r" if "r \<in> set after" for r
  proof (rule held_open_later [OF _ cl5 _ b(1)])
    from that show "held_open w2 m r" by (intro held2) simp
    from dist(4,5) that no
    show "\<forall>i\<in>{i. Some i \<in> conn_no m ` set before} \<union> {conn_id c}. conn_no m r \<noteq> Some i"
      by (metis (mono_tags, lifting) Un_iff disjoint_iff image_eqI mem_Collect_eq singletonD)
  qed
  then have "list_all (held_open w5 m3) after"
    by (simp add: list_all_iff)
  moreover from dist(2) no3 have "distinct (map (conn_no m3) after)"
    by simp
  ultimately obtain w' m1 es where a:
    "check_replicas w5 n (or_zero v) after m3 (reps3 @ [ReplicaError rgn (str_exn e) False])
       = ((w', m1), Inr ((reps3 @ [ReplicaError rgn (str_exn e) False]) @ es))"
    using check_replicas_held by blast
  have loop: "check_replicas w2 n (or_zero v) replica_regions m []
      = ((w', m1), Inr ((reps3 @ [ReplicaError rgn (str_exn e) False]) @ es))"
    by (simp only: assms(6) check_replicas_append assms(7) check_replicas.simps fail a
        prod.case sum.case)
  from poll_of_loop [OF assms(1-3) loop] obtain m' st where st:
    "check_replication_status w m = ((w', m'), Inr st)"
    "replicas st = (reps3 @ [ReplicaError rgn (str_exn e) False]) @ es"
    by blast
  from poll_ok [OF st(1)] st show ?thesis
    by simp
qed

theorem replica_failure_recorded_witness:
  "fetch_count (outage demo_servers 6 (''localhost'', 5442) {} 5) east
     = (outage demo_servers 6 (''localhost'', 5442) {} 6, Inr 60)
   \<and> fetch_max_id (outage demo_servers 6 (''localhost'', 5442) {} 6) east
       = (outage demo_servers 6 (''localhost'', 5442) {1} 7,
          Inl (OperationalError (server_text ConnectionLost)))
   \<and> (\<exists>w' m' st.
         check_replication_status (outage demo_servers 6 (''localhost'', 5442) {} 3)
           all_connected = ((w', m'), Inr st)
         \<and> metrics_history m' = metrics_history all_connected @ [st]
         \<and> map region (replicas st) = replica_regions
         \<and> ReplicaError ''us-east'' (server_text ConnectionLost) False \<in> set (replicas st))
   \<and> check_replicas (outage demo_servers 7 (''localhost'', 5443) {} 5) 60 60 [''us-east'']
         all_connected []
       = ((outage demo_servers 7 (''localhost'', 5443) {} 7, all_connected),
          Inr [ReplicaOk ''us-east'' 60 60 0 0 True])
   \<and> fetch_count (outage demo_servers 7 (''localhost'', 5443) {} 7) europe
       = (outage demo_servers 7 (''localhost'', 5443) {2} 8,
          Inl (OperationalError (server_text ConnectionLost)))
   \<and> (\<exists>w' m' st.
         check_replication_status (outage demo_servers 7 (''localhost'', 5443) {} 3)
           all_connected = ((w', m'), Inr st)
         \<and> metrics_history m' = metrics_history all_connected @ [st]
         \<and> map region (replicas st) = replica_regions
         \<and> ReplicaError ''eu-west'' (server_text ConnectionLost) False \<in> set (replicas st))"
proof -
  note west = fetch_outage [where srv = demo_servers and c = west, OF servers_demo(1)]
  note east = fetch_outage [where srv = demo_servers and c = east, OF servers_demo(2)]
  note europe = fetch_outage [where srv = demo_servers and c = europe, OF servers_demo(3)]
  have first: "replica_regions = [] @ ''us-east'' # [''eu-west'']"
    and second: "replica_regions = [''us-east''] @ ''eu-west'' # []"
    by (simp_all add: replica_regions_def)
  have loop: "check_replicas (outage demo_servers 7 (''localhost'', 5443) {} 5) 60
      (or_zero (Some 60)) [''us-east''] all_connected []
    = ((outage demo_servers 7 (''localhost'', 5443) {} 7, all_connected),
       Inr [ReplicaOk ''us-east'' 60 60 0 0 True])"
    by (simp add: check_replica_def lookup_all_connected cursor_outage east conn_fields
        or_zero_def Let_def)
  have e1: "fetch_count (outage demo_servers 6 (''localhost'', 5442) {} 5) east
        = (outage demo_servers 6 (''localhost'', 5442) {1} 7,
           Inl (OperationalError (server_text ConnectionLost)))
      \<or> (\<exists>w4 k. fetch_count (outage demo_servers 6 (''localhost'', 5442) {} 5) east
                    = (w4, Inr k)
              \<and> fetch_max_id w4 east
                    = (outage demo_servers 6 (''localhost'', 5442) {1} 7,
                       Inl (OperationalError (server_text ConnectionLost))))"
    by (simp add: east conn_fields)
  have e2: "fetch_count (outage demo_servers 7 (''localhost'', 5443) {} 7) europe
        = (outage demo_servers 7 (''localhost'', 5443) {2} 8,
           Inl (OperationalError (server_text ConnectionLost)))
      \<or> (\<exists>w4 k. fetch_count (outage demo_servers 7 (''localhost'', 5443) {} 7) europe
                    = (w4, Inr k)
              \<and> fetch_max_id w4 europe
                    = (outage demo_servers 7 (''localhost'', 5443) {2} 8,
                       Inl (OperationalError (server_text ConnectionLost))))"
    by (simp add: europe conn_fields)
  have w3: "fetch_count (outage demo_servers k a {} 3) west
              = (outage demo_servers k a {} 4, Inr 60)"
    "fetch_max_id (outage demo_servers k a {} 4) west
              = (outage demo_servers k a {} 5, Inr (Some 60))"
    if "a \<noteq> (''localhost'', 5441)" for k a
    using that by (auto simp: west conn_fields)
  have nil: "check_replicas w 60 (or_zero (Some 60)) [] all_connected []
               = ((w, all_connected), Inr [])" for w
    by simp
  from replica_failure_recorded [OF lookup_all_connected(1) w3 held_all_connected first nil
      lookup_all_connected(2) e1]
    replica_failure_recorded [OF lookup_all_connected(1) w3 held_all_connected second loop
      lookup_all_connected(3) e2]
  show ?thesis
    using loop by (simp add: east europe conn_fields or_zero_def)
qed

subsection \<open>An empty table\<close>

lemma fetch_max_id_empty:
  assumes "is_open w c" and "test_table_empty (advance w) c"
  shows "fetch_max_id w c = (advance w, Inr None)"
  using assms
  by (auto simp: test_table_empty_def fetch_max_id_def exchange_open select_max_id_def
      split: option.splits)

lemma check_replica_empty:
  assumes "map_of (connections m) rgn = Some c"
    and "fetch_count w c = (w1, Inr k)" and "test_table_empty (advance w1) c"
  shows "\<exists>w' m'. check_replica w pc pm rgn m reps
           = ((w', m'), Inr (reps @ [ReplicaOk rgn k 0 (pc - k) (pm - 0) (pc - k < 10)]))"
proof -
  note a = fetch_count_answer [OF assms(2)]
  from a have "is_open w1 c"
    by (simp add: is_open_def)
  from fetch_max_id_empty [OF this assms(3)] assms(1,2) a(1) show ?thesis
    by (simp add: check_replica_def cursor_def or_zero_def Let_def)
qed

text \<open>
  Claim C9. When the test table is empty at the moment the \<^verbatim>\<open>MAX(id)\<close> query is
  answered, \<^verbatim>\<open>MAX(id)\<close> is \<^verbatim>\<open>NULL\<close> and the poll reports \<open>max_id = 0\<close>: for the
  primary, and for a replica, whose \<open>lag_ids\<close> is then the primary's reported
  \<open>max_id\<close> minus that 0. The world in which a query is answered is \<open>advance\<close> of the
  world in which it is sent: \<open>w1\<close> and \<open>w4\<close> are the worlds after the \<^verbatim>\<open>COUNT\<close> query
  of the primary and of the replica, \<open>w3\<close> the world in which the poll turns to the
  replica, after the replicas \<open>before\<close> it.
\<close>

theorem empty_table_max_id_zero:
  assumes "check_replication_status w m = ((w', m'), Inr st)"
  shows "(map_of (connections m) ''us-west'' = Some c0 \<and> fetch_count w c0 = (w1, r1)
            \<and> test_table_empty (advance w1) c0
            \<longrightarrow> primary_max_id (primary st) = 0)
       \<and> (map_of (connections m) ''us-west'' = Some c0
            \<and> fetch_count w c0 = (w1, Inr n) \<and> fetch_max_id w1 c0 = (w2, Inr v)
            \<and> replica_regions = before @ rgn # after
            \<and> check_replicas w2 n (or_zero v) before m [] = ((w3, m3), Inr reps3)
            \<and> map_of (connections m) rgn = Some c
            \<and> fetch_count w3 c = (w4, Inr k) \<and> test_table_empty (advance w4) c
            \<longrightarrow> (\<exists>e \<in> set (replicas st). region e = rgn \<and> \<not> has_error e \<and> max_id e = 0
                    \<and> lag_ids e = primary_max_id (primary st) - 0))"
proof -
  from poll_returns [OF assms] obtain c' w1' n' w2' v' m1 reps where st:
    "map_of (connections m) ''us-west'' = Some c'" "is_open w c'"
    "fetch_count w c' = (w1', Inr n')" "fetch_max_id w1' c' = (w2', Inr v')"
    "check_replicas w2' n' (or_zero v') replica_regions m [] = ((w', m1), Inr reps)"
    "primary_max_id (primary st) = or_zero v'" "replicas st = reps"
    by force
  have primary: "primary_max_id (primary st) = 0"
    if "map_of (connections m) ''us-west'' = Some c0" "fetch_count w c0 = (w1, r1)"
      "test_table_empty (advance w1) c0"
  proof -
    from that(1,2) st(1,3) have eq: "c' = c0" "w1' = w1"
      by simp_all
    from fetch_count_answer [OF st(3)] have "is_open w1' c'"
      by (simp add: is_open_def)
    from fetch_max_id_empty [OF this] that(3) eq st(4) have "v' = None"
      by simp
    with st(6) show ?thesis
      by (simp add: or_zero_def)
  qed
  have replica: "\<exists>e \<in> set (replicas st). region e = rgn \<and> \<not> has_error e \<and> max_id e = 0
      \<and> lag_ids e = primary_max_id (primary st) - 0"
    if "map_of (connections m) ''us-west'' = Some c0"
      "fetch_count w c0 = (w1, Inr n)" "fetch_max_id w1 c0 = (w2, Inr v)"
      "replica_regions = before @ rgn # after"
      "check_replicas w2 n (or_zero v) before m [] = ((w3, m3), Inr reps3)"
      "map_of (connections m) rgn = Some c"
      "fetch_count w3 c = (w4, Inr k)" "test_table_empty (advance w4) c"
  proof -
    from that(1-3) st(1,3,4) have eq: "c' = c0" "w1' = w1" "n' = n" "w2' = w2" "v' = v"
      by simp_all
    from check_replicas_ok [OF that(5)] have "connections m3 = connections m"
      by blast
    with that(6) have "map_of (connections m3) rgn = Some c"
      by simp
    from check_replica_empty [OF this that(7,8), of n "or_zero v" reps3]
    obtain w5 m5 where one:
      "check_replica w3 n (or_zero v) rgn m3 reps3
         = ((w5, m5),
            Inr (reps3 @ [ReplicaOk rgn k 0 (n - k) (or_zero v - 0) (n - k < 10)]))"
      by blast
    from st(5) have "check_replicas w5 n (or_zero v) after m5
        (reps3 @ [ReplicaOk rgn k 0 (n - k) (or_zero v - 0) (n - k < 10)])
      = ((w', m1), Inr reps)"
      by (simp only: eq that(4) check_replicas_append that(5) check_replicas.simps one
          prod.case sum.case)
    from check_replicas_ok [OF this]
    have "ReplicaOk rgn k 0 (n - k) (or_zero v - 0) (n - k < 10) \<in> set reps"
      by auto
    with st(6,7) eq show ?thesis
      by (intro bexI [of _ "ReplicaOk rgn k 0 (n - k) (or_zero v - 0) (n - k < 10)"])
        simp_all
  qed
  from primary replica show ?thesis
    by blast
qed

lemma empty_demo:
  "test_table_empty (advance (demo_world k 0 b c)) west"
  "test_table_empty (advance (demo_world k a b 0)) europe"
proof -
  have adv: "advance (demo_world k a b c) = demo_world (Suc k) a b c" for k a b c
    by (simp add: demo_world_def advance_example quiet_def)
  have srv: "servers (demo_world k a b c) = three_servers (test_db a) (test_db b) (test_db c)"
    for k a b c
    by (simp add: demo_world_def example_world_def)
  show "test_table_empty (advance (demo_world k 0 b c)) west"
    by (simp add: test_table_empty_def adv srv servers_three test_db_def table_upto_def)
  show "test_table_empty (advance (demo_world k a b 0)) europe"
    by (simp add: test_table_empty_def adv srv servers_three test_db_def table_upto_def)
qed

theorem empty_table_max_id_zero_witness:
  "check_replication_status (demo_world 3 0 0 0) all_connected
     = ((demo_world 9 0 0 0,
         all_connected
           \<lparr>metrics_history :=
              [demo_status 0 [ReplicaOk ''us-east'' 0 0 0 0 True,
                              ReplicaOk ''eu-west'' 0 0 0 0 True]]\<rparr>),
        Inr (demo_status 0 [ReplicaOk ''us-east'' 0 0 0 0 True,
                            ReplicaOk ''eu-west'' 0 0 0 0 True]))
   \<and> fetch_count (demo_world 3 0 0 0) west = (demo_world 4 0 0 0, Inr 0)
   \<and> test_table_empty (advance (demo_world 4 0 0 0)) west
   \<and> primary_max_id (primary (demo_status 0 [ReplicaOk ''us-east'' 0 0 0 0 True,
                                               ReplicaOk ''eu-west'' 0 0 0 0 True])) = 0
   \<and> check_replication_status (demo_world 3 60 50 0) all_connected
     = ((demo_world 9 60 50 0,
         all_connected
           \<lparr>metrics_history :=
              [demo_status 60 [ReplicaOk ''us-east'' 50 50 10 10 False,
                               ReplicaOk ''eu-west'' 0 0 60 60 False]],
            alerts := [alert_of (demo_world 0 60 50 0) ''us-east'' 10,
                       alert_of (demo_world 0 60 50 0) ''eu-west'' 60]\<rparr>),
        Inr (demo_status 60 [ReplicaOk ''us-east'' 50 50 10 10 False,
                             ReplicaOk ''eu-west'' 0 0 60 60 False]))
   \<and> fetch_max_id (demo_world 4 60 50 0) west = (demo_world 5 60 50 0, Inr (Some 60))
   \<and> check_replicas (demo_world 5 60 50 0) 60 60 [''us-east''] all_connected []
       = ((demo_world 7 60 50 0, create_alert (demo_world 7 60 50 0) ''us-east'' 10 all_connected),
          Inr [ReplicaOk ''us-east'' 50 50 10 10 False])
   \<and> fetch_count (demo_world 7 60 50 0) europe = (demo_world 8 60 50 0, Inr 0)
   \<and> test_table_empty (advance (demo_world 8 60 50 0)) europe
   \<and> (\<exists>e \<in> set (replicas (demo_status 60 [ReplicaOk ''us-east'' 50 50 10 10 False,
                                             ReplicaOk ''eu-west'' 0 0 60 60 False])).
         region e = ''eu-west'' \<and> \<not> has_error e \<and> max_id e = 0 \<and> lag_ids e = 60 - 0)"
proof -
  have loop: "check_replicas (demo_world 5 60 50 0) 60 (or_zero (Some 60)) [''us-east'']
      all_connected []
    = ((demo_world 7 60 50 0, create_alert (demo_world 7 60 50 0) ''us-east'' 10 all_connected),
       Inr [ReplicaOk ''us-east'' 50 50 10 10 False])"
    using fetch_demo(2) [of 5 60 50 0] fetch_demo(5) [of 6 60 50 0]
    by (simp add: check_replica_def lookup_all_connected cursor_demo or_zero_def Let_def)
  have second: "replica_regions = [''us-east''] @ ''eu-west'' # []"
    by (simp add: replica_regions_def)
  note f = fetch_demo(1) [of 3 0 0 0] fetch_demo(1) [of 3 60 50 0] fetch_demo(4) [of 4 60 50 0]
    fetch_demo(3) [of 7 60 50 0]
  from empty_table_max_id_zero [OF poll_empty, of west "demo_world 4 0 0 0" "Inr 0"]
    empty_table_max_id_zero [OF poll_lagging, of west "demo_world 4 60 50 0" _ 60
      "demo_world 5 60 50 0" "Some 60" "[''us-east'']" "''eu-west''" "[]"
      "demo_world 7 60 50 0" _ _ europe "demo_world 8 60 50 0" 0]
  show ?thesis
    using loop second f
    by (simp add: lookup_all_connected empty_demo poll_empty poll_lagging demo_status_def
        or_zero_def)
qed

subsection \<open>\<^verbatim>\<open>setup_primary\<close>\<close>

lemma exec_setup_script: "exec_script setup_script db = Inr (seeded db)"
  by (simp add: setup_script_def seeded_def fun_upd_twist)

lemma seeded_idem: "seeded (seeded db) = seeded db"
  by (rule ext) (simp add: seeded_def)

lemma length_insert_rows:
  "length (table_ids (insert_rows n tb)) = length (table_ids tb) + n"
  by (simp add: insert_rows_def del: upt_Suc)

lemma seeded_counts:
  "select_count ''transactions'' (seeded db) = Inr 1000"
  "select_count ''replication_test'' (seeded db) = Inr 0"
  by (simp_all add: select_count_def seeded_def length_insert_rows)

lemma setup_primary_connected:
  assumes "map_of (connections m) ''us-west'' = Some c" and "is_open w c"
    and "servers (advance w) (conn_host c, conn_port c) = Some db"
  shows "setup_primary w m =
           (((advance w)\<lparr>servers := (servers (advance w))((conn_host c, conn_port c)
                \<mapsto> seeded db)\<rparr>, m), None)"
  using assms
  by (simp add: setup_primary_def cursor_def execute_update_def exchange_open
      exec_setup_script)

lemma setup_fresh:
  "setup_primary (fresh_world k) all_connected = ((seeded_world (Suc k), all_connected), None)"
  "setup_primary (seeded_world k) all_connected = ((seeded_world (Suc k), all_connected), None)"
proof -
  have upd: "(three_servers p r1 r2)((conn_host west, conn_port west) \<mapsto> p')
      = three_servers p' r1 r2" for p p' r1 r2
    by (rule ext) (simp add: three_servers_def conn_fields)
  have a: "advance (fresh_world k) = fresh_world (Suc k)"
    "advance (seeded_world k) = seeded_world (Suc k)"
    by (simp_all add: fresh_world_def seeded_world_def advance_example quiet_def)
  have s: "servers (fresh_world (Suc k)) = three_servers Map.empty Map.empty Map.empty"
    "servers (seeded_world (Suc k)) = three_servers (seeded Map.empty) Map.empty Map.empty"
    by (simp_all add: fresh_world_def seeded_world_def example_world_def)
  have o: "is_open (fresh_world k) west" "is_open (seeded_world k) west"
    by (simp_all add: fresh_world_def seeded_world_def open_example)
  have u: "(fresh_world (Suc k))\<lparr>servers := three_servers (seeded Map.empty) Map.empty Map.empty\<rparr>
      = seeded_world (Suc k)"
    "(seeded_world (Suc k))\<lparr>servers := three_servers (seeded Map.empty) Map.empty Map.empty\<rparr>
      = seeded_world (Suc k)"
    by (simp_all add: fresh_world_def seeded_world_def example_world_def)
  show "setup_primary (fresh_world k) all_connected
      = ((seeded_world (Suc k), all_connected), None)"
    using setup_primary_connected [OF lookup_all_connected(1) o(1), of Map.empty]
    by (simp add: a s servers_three upd u)
  show "setup_primary (seeded_world k) all_connected
      = ((seeded_world (Suc k), all_connected), None)"
    using setup_primary_connected [OF lookup_all_connected(1) o(2), of "seeded Map.empty"]
    by (simp add: a s servers_three upd u seeded_idem)
qed

text \<open>
  Claim C4. With an open connection to a primary that is reachable, \<^verbatim>\<open>setup_primary\<close>
  succeeds and leaves exactly 1000 rows in the transactions table and none in the test
  table. A second run right after it, with the primary still reachable, succeeds too and
  leaves the same counts; when nothing else touched the primary's database between the
  two runs, the second run ends with the very database the first run ended with.
\<close>

theorem setup_primary_idempotent:
  assumes "map_of (connections m) ''us-west'' = Some c" and "is_open w c"
    and "servers (advance w) (conn_host c, conn_port c) = Some db"
  shows "\<exists>w1 db1. setup_primary w m = ((w1, m), None)
           \<and> servers w1 (conn_host c, conn_port c) = Some db1
           \<and> select_count ''transactions'' db1 = Inr 1000
           \<and> select_count ''replication_test'' db1 = Inr 0
           \<and> (servers (advance w1) (conn_host c, conn_port c) \<noteq> None \<longrightarrow>
                (\<exists>w2 db2. setup_primary w1 m = ((w2, m), None)
                   \<and> servers w2 (conn_host c, conn_port c) = Some db2
                   \<and> select_count ''transactions'' db2 = Inr 1000
                   \<and> select_count ''replication_test'' db2 = Inr 0
                   \<and> (servers (advance w1) (conn_host c, conn_port c) = Some db1
                        \<longrightarrow> db2 = db1)))"
proof -
  define w1 where
    "w1 = (advance w)\<lparr>servers := (servers (advance w))((conn_host c, conn_port c)
             \<mapsto> seeded db)\<rparr>"
  have first: "setup_primary w m = ((w1, m), None)"
    unfolding w1_def by (rule setup_primary_connected [OF assms])
  have srv: "servers w1 (conn_host c, conn_port c) = Some (seeded db)"
    by (simp add: w1_def)
  have open1: "is_open w1 c"
    using assms(2) by (simp add: w1_def is_open_def advance_frame)
  have second: "\<exists>w2 db2. setup_primary w1 m = ((w2, m), None)
      \<and> servers w2 (conn_host c, conn_port c) = Some db2
      \<and> select_count ''transactions'' db2 = Inr 1000
      \<and> select_count ''replication_test'' db2 = Inr 0
      \<and> (servers (advance w1) (conn_host c, conn_port c) = Some (seeded db)
           \<longrightarrow> db2 = seeded db)"
    if "servers (advance w1) (conn_host c, conn_port c) \<noteq> None"
  proof -
    from that obtain db' where db': "servers (advance w1) (conn_host c, conn_port c) = Some db'"
      by blast
    show ?thesis
      using setup_primary_connected [OF assms(1) open1 db'] db'
      by (auto simp: seeded_counts seeded_idem)
  qed
  from first srv second seeded_counts [of db] show ?thesis
    by blast
qed

theorem setup_primary_idempotent_witness:
  "map_of (connections all_connected) ''us-west'' = Some west
   \<and> is_open (fresh_world 3) west
   \<and> servers (advance (fresh_world 3)) (conn_host west, conn_port west) = Some Map.empty
   \<and> setup_primary (fresh_world 3) all_connected = ((seeded_world 4, all_connected), None)
   \<and> servers (advance (seeded_world 4)) (conn_host west, conn_port west)
       = Some (seeded Map.empty)
   \<and> setup_primary (seeded_world 4) all_connected = ((seeded_world 5, all_connected), None)
   \<and> servers (seeded_world 5) (conn_host west, conn_port west) = Some (seeded Map.empty)
   \<and> select_count ''transactions'' (seeded Map.empty) = Inr 1000
   \<and> select_count ''replication_test'' (seeded Map.empty) = Inr 0"
proof -
  have o: "is_open (fresh_world 3) west"
    by (simp add: fresh_world_def open_example)
  have s: "servers (advance (fresh_world 3)) (conn_host west, conn_port west) = Some Map.empty"
    "servers (advance (seeded_world 4)) (conn_host west, conn_port west)
       = Some (seeded Map.empty)"
    "servers (seeded_world 5) (conn_host west, conn_port west) = Some (seeded Map.empty)"
  proof -
    have adv: "advance (fresh_world 3) = fresh_world 4"
      "advance (seeded_world 4) = seeded_world 5"
      by (simp_all add: fresh_world_def seeded_world_def advance_example quiet_def)
    show "servers (advance (fresh_world 3)) (conn_host west, conn_port west) = Some Map.empty"
      "servers (advance (seeded_world 4)) (conn_host west, conn_port west)
         = Some (seeded Map.empty)"
      "servers (seeded_world 5) (conn_host west, conn_port west) = Some (seeded Map.empty)"
      unfolding adv
      by (simp_all add: fresh_world_def seeded_world_def example_world_def servers_three)
  qed
  from setup_primary_idempotent [OF lookup_all_connected(1) o s(1)] show ?thesis
    using o s setup_fresh(1) [of 3] setup_fresh(2) [of 4]
    by (auto simp: lookup_all_connected)
qed

subsection \<open>\<^verbatim>\<open>connect_all\<close>\<close>

lemma connect_regions_frame:
  "regions (snd (connect_regions w rs m)) = regions m
   \<and> metrics_history (snd (connect_regions w rs m)) = metrics_history m
   \<and> alerts (snd (connect_regions w rs m)) = alerts m"
  by (induction rs arbitrary: w m) (auto split: sum.splits prod.splits)

lemma length_attempts: "length (attempts w cs) = length cs"
  by (induction cs arbitrary: w) (auto split: sum.splits prod.splits)

lemma connect_regions_keys:
  "fst ` set (connections (snd (connect_regions w rs m)))
     = fst ` set (connections m)
       \<union> fst ` set (filter snd (zip (map fst rs) (attempts w (map snd rs))))"
proof (induction rs arbitrary: w m)
  case Nil
  then show ?case by simp
next
  case (Cons rc rs)
  obtain rgn config where rc: "rc = (rgn, config)"
    by (cases rc)
  obtain w1 r where p: "psycopg2_connect w (host config) (port config) = (w1, r)"
    by (cases "psycopg2_connect w (host config) (port config)")
  show ?case
  proof (cases r)
    case (Inl e)
    with p show ?thesis
      unfolding rc by (simp add: Cons.IH)
  next
    case (Inr c)
    with p show ?thesis
      unfolding rc by (auto simp: Cons.IH dom_update)
  qed
qed

lemma all_attempts_iff:
  assumes "distinct ks" and "length bs = length ks"
  shows "set ks \<subseteq> fst ` set (filter snd (zip ks bs)) \<longleftrightarrow> list_all (\<lambda>b. b) bs"
proof
  assume sub: "set ks \<subseteq> fst ` set (filter snd (zip ks bs))"
  have "bs ! i" if "i < length bs" for i
  proof -
    from that assms(2) have "ks ! i \<in> set ks"
      by simp
    with sub obtain b where "(ks ! i, b) \<in> set (zip ks bs)" "b"
      by auto
    then obtain j where j: "j < length ks" "ks ! j = ks ! i" "bs ! j"
      by (auto simp: in_set_zip)
    with assms that have "j = i"
      by (simp add: nth_eq_iff_index_eq)
    with j show ?thesis by simp
  qed
  then show "list_all (\<lambda>b. b) bs"
    by (simp add: list_all_length)
next
  assume all: "list_all (\<lambda>b. b) bs"
  show "set ks \<subseteq> fst ` set (filter snd (zip ks bs))"
  proof
    fix k
    assume "k \<in> set ks"
    then obtain i where i: "i < length ks" "ks ! i = k"
      by (auto simp: in_set_conv_nth)
    with all assms(2) have "bs ! i"
      by (simp add: list_all_length)
    with i assms(2) have "(k, True) \<in> set (filter snd (zip ks bs))"
      by (auto simp: in_set_zip intro!: exI [of _ i])
    then show "k \<in> fst ` set (filter snd (zip ks bs))"
      by force
  qed
qed

lemma connect_regions_distinct:
  "distinct (map fst (connections m))
   \<Longrightarrow> distinct (map fst (connections (snd (connect_regions w rs m))))"
proof (induction rs arbitrary: w m)
  case Nil
  then show ?case by simp
next
  case (Cons rc rs)
  obtain rgn config where rc: "rc = (rgn, config)"
    by (cases rc)
  show ?case
    unfolding rc using Cons.prems
    by (auto split: sum.splits prod.splits intro!: Cons.IH simp: distinct_update)
qed

lemma length_eq_iff_keys:
  assumes "distinct (map fst xs)" and "distinct (map fst ys)"
    and "fst ` set xs \<subseteq> fst ` set ys"
  shows "length xs = length ys \<longleftrightarrow> fst ` set ys \<subseteq> fst ` set xs"
proof -
  have cx: "card (fst ` set xs) = length xs"
    using distinct_card [OF assms(1)] by simp
  have cy: "card (fst ` set ys) = length ys"
    using distinct_card [OF assms(2)] by simp
  show ?thesis
  proof
    assume "length xs = length ys"
    with cx cy have "card (fst ` set xs) = card (fst ` set ys)"
      by simp
    with assms(3) have "fst ` set xs = fst ` set ys"
      by (intro card_subset_eq) simp_all
    then show "fst ` set ys \<subseteq> fst ` set xs"
      by simp
  next
    assume "fst ` set ys \<subseteq> fst ` set xs"
    with assms(3) have "fst ` set xs = fst ` set ys"
      by blast
    with cx cy show "length xs = length ys"
      by simp
  qed
qed

lemma keys_attempted:
  "fst ` set (filter snd (zip (map fst rs) bs)) \<subseteq> fst ` set rs"
  by (auto dest!: set_zip_leftD)

lemma connect_all_ok_iff:
  assumes "distinct (map fst (regions m))" and "distinct (map fst (connections m))"
    and "fst ` set (connections m) \<subseteq> fst ` set (regions m)"
  shows "snd (connect_all w m)
           \<longleftrightarrow> fst ` set (regions m) \<subseteq> fst ` set (connections (snd (fst (connect_all w m))))"
proof -
  obtain w' m' where c: "connect_regions w (regions m) m = (w', m')"
    by (cases "connect_regions w (regions m) m")
  then have m': "m' = snd (connect_regions w (regions m) m)"
    by simp
  have all: "connect_all w m = ((w', m'), length (connections m') = length (regions m'))"
    by (simp add: connect_all_def c)
  have r: "regions m' = regions m"
    unfolding m' using connect_regions_frame [of w "regions m" m] by blast
  have d: "distinct (map fst (connections m'))"
    unfolding m' by (rule connect_regions_distinct [OF assms(2)])
  have "fst ` set (connections m')
      = fst ` set (connections m)
        \<union> fst ` set (filter snd (zip (map fst (regions m))
                                     (attempts w (map snd (regions m)))))"
    unfolding m' by (rule connect_regions_keys)
  moreover have "fst ` set (filter snd (zip (map fst (regions m))
      (attempts w (map snd (regions m))))) \<subseteq> fst ` set (regions m)"
    by (rule keys_attempted)
  ultimately have sub: "fst ` set (connections m') \<subseteq> fst ` set (regions m)"
    using assms(3) by simp
  have "length (connections m') = length (regions m)
      \<longleftrightarrow> fst ` set (regions m) \<subseteq> fst ` set (connections m')"
    by (rule length_eq_iff_keys [OF d assms(1) sub])
  then show ?thesis
    by (simp add: all r)
qed

lemma connected_to_iff: "connected_to m rgn \<longleftrightarrow> rgn \<in> fst ` set (connections m)"
  by (simp add: connected_to_def map_of_eq_None_iff)

lemma all_connected_to_iff:
  "list_all (connected_to m) (map fst rs) \<longleftrightarrow> fst ` set rs \<subseteq> fst ` set (connections m)"
  unfolding list_all_iff connected_to_iff by auto

lemma connect_all_fresh_keys:
  assumes "connections m = []"
  shows "fst ` set (connections (snd (fst (connect_all w m))))
           = fst ` set (filter snd (zip (map fst (regions m))
                                        (attempts w (map snd (regions m)))))"
proof -
  obtain w' m' where c: "connect_regions w (regions m) m = (w', m')"
    by (cases "connect_regions w (regions m) m")
  with connect_regions_keys [of w "regions m" m] show ?thesis
    by (simp add: connect_all_def assms)
qed

text \<open>\<^verbatim>\<open>connect_all\<close> does to the servers nothing of its own: they are as the
  environment made them in as many exchanges as there are regions.\<close>

lemma advance_closed: "advance (w\<lparr>closed := cl\<rparr>) = (advance w)\<lparr>closed := cl\<rparr>"
  by (simp add: advance_def)

lemma funpow_advance_closed:
  "(advance ^^ n) (w\<lparr>closed := cl\<rparr>) = ((advance ^^ n) w)\<lparr>closed := cl\<rparr>"
  by (induction n) (simp_all add: advance_closed)

lemma connect_regions_world:
  "\<exists>cl. fst (connect_regions w rs m) = ((advance ^^ length rs) w)\<lparr>closed := cl\<rparr>"
proof (induction rs arbitrary: w m)
  case Nil
  have "w = w\<lparr>closed := closed w\<rparr>"
    by simp
  then show ?case
    by (intro exI [of _ "closed w"]) simp
next
  case (Cons rc rs)
  obtain rgn config where rc: "rc = (rgn, config)"
    by (cases rc)
  obtain w1 r where p: "psycopg2_connect w (host config) (port config) = (w1, r)"
    by (cases "psycopg2_connect w (host config) (port config)")
  then obtain cl1 where w1: "w1 = (advance w)\<lparr>closed := cl1\<rparr>"
    by (auto simp: psycopg2_connect_def Let_def split: option.splits
        intro: that [of "closed (advance w)"])
  have "\<exists>cl. fst (connect_regions w1 rs m') = ((advance ^^ length rs) w1)\<lparr>closed := cl\<rparr>"
    for m'
    by (rule Cons.IH)
  then have "\<exists>cl. fst (connect_regions w1 rs m')
      = ((advance ^^ Suc (length rs)) w)\<lparr>closed := cl\<rparr>" for m'
    by (simp add: w1 funpow_advance_closed funpow_swap1)
  with p show ?case
    unfolding rc by (cases r) simp_all
qed

lemma connect_all_servers:
  "servers (fst (fst (connect_all w m))) = servers ((advance ^^ length (regions m)) w)"
proof -
  from connect_regions_world [of w "regions m" m] obtain cl where
    "fst (connect_regions w (regions m) m) = ((advance ^^ length (regions m)) w)\<lparr>closed := cl\<rparr>"
    by blast
  moreover obtain w' m' where "connect_regions w (regions m) m = (w', m')"
    by (cases "connect_regions w (regions m) m")
  ultimately show ?thesis
    by (simp add: connect_all_def)
qed

lemma run_monitoring_gives_up:
  assumes "\<not> snd (connect_all w m)"
  shows "run_monitoring d w m =
           (\<lparr>rs_world = fst (fst (connect_all w m)), rs_monitor = snd (fst (connect_all w m)),
             rs_calls = [ConnectAll],
             rs_stdout = banner ''MULTI-REGION REPLICATION MONITOR''\<rparr>, None)"
proof -
  from assms obtain w' m' where "connect_all w m = ((w', m'), False)"
    by (cases "connect_all w m") auto
  then show ?thesis
    by (simp add: run_monitoring_def run_print_def run_connect_all_def)
qed

lemma connect_example:
  "psycopg2_connect (example_world k ev srv) h p =
     (case ev k srv (h, p) of
        None \<Rightarrow> (example_world (Suc k) ev (ev k srv),
                 Inl (OperationalError (server_text (CannotConnect h p))))
      | Some db \<Rightarrow>
          (example_world (Suc k) ev (ev k srv),
           Inr \<lparr>conn_id = k, conn_host = h, conn_port = p, autocommit = False\<rparr>))"
proof -
  have f: "servers (example_world j ev' srv') = srv'" "closed (example_world j ev' srv') = {}"
    "step (example_world j ev' srv') = j" for j ev' srv'
    by (simp_all add: example_world_def)
  have u: "(example_world j ev' srv')\<lparr>closed := {}\<rparr> = example_world j ev' srv'" for j ev' srv'
    by (simp add: example_world_def)
  show ?thesis
    by (simp add: psycopg2_connect_def advance_example f u errtext_example Let_def
        split: option.splits)
qed

lemma connect_outage:
  "psycopg2_connect (outage srv k a {} j) h p =
     (if (k \<le> j \<and> a = (h, p)) \<or> srv (h, p) = None
      then (outage srv k a {} (Suc j),
            Inl (OperationalError (server_text (CannotConnect h p))))
      else (outage srv k a {} (Suc j),
            Inr \<lparr>conn_id = j, conn_host = h, conn_port = p, autocommit = False\<rparr>))"
  by (auto simp: psycopg2_connect_def advance_outage servers_outage field_outage
      closed_outage Let_def split: option.splits)

lemma regions_init:
  "regions init =
     [(''us-west'', \<lparr>host = ''localhost'', port = 5441, role = ''primary''\<rparr>),
      (''us-east'', \<lparr>host = ''localhost'', port = 5442, role = ''replica''\<rparr>),
      (''eu-west'', \<lparr>host = ''localhost'', port = 5443, role = ''replica''\<rparr>)]"
  "connections init = []" "metrics_history init = []" "alerts init = []"
  by (simp_all add: init_def)

lemma connect_all_fresh: "connect_all (fresh_world 0) init = ((fresh_world 3, all_connected), True)"
proof -
  have s: "three_servers p r1 r2 (''localhost'', 5441) = Some p"
    "three_servers p r1 r2 (''localhost'', 5442) = Some r1"
    "three_servers p r1 r2 (''localhost'', 5443) = Some r2" for p r1 r2
    by (simp_all add: three_servers_def)
  have "connect_regions (fresh_world 0) (regions init) init = (fresh_world 3, all_connected)"
    unfolding fresh_world_def regions_init(1)
    by (simp add: connect_example quiet_def s all_connected_def west_def east_def europe_def
        numeral_3_eq_3 init_def)
  then show ?thesis
    by (simp add: connect_all_def all_connected_def regions_init)
qed

lemma connect_all_partial:
  "connect_all (outage east_unseeded 2 (''localhost'', 5443) {} 0) init
     = ((outage east_unseeded 2 (''localhost'', 5443) {} 3, partly_connected), False)"
proof -
  have s: "east_unseeded (''localhost'', 5441) \<noteq> None"
    "east_unseeded (''localhost'', 5442) \<noteq> None"
    by (simp_all add: east_unseeded_def three_servers_def)
  have "connect_regions (outage east_unseeded 2 (''localhost'', 5443) {} 0) (regions init) init
      = (outage east_unseeded 2 (''localhost'', 5443) {} 3, partly_connected)"
    unfolding regions_init(1)
    by (simp add: connect_outage s partly_connected_def west_def east_def
        numeral_3_eq_3 numeral_2_eq_2 init_def)
  then show ?thesis
    by (simp add: connect_all_def partly_connected_def regions_init)
qed

lemma attempts_examples:
  "attempts (fresh_world 0) (map snd (regions init)) = [True, True, True]"
  "attempts (outage east_unseeded 2 (''localhost'', 5443) {} 0) (map snd (regions init))
     = [True, True, False]"
proof -
  have s: "three_servers p r1 r2 (''localhost'', 5441) = Some p"
    "three_servers p r1 r2 (''localhost'', 5442) = Some r1"
    "three_servers p r1 r2 (''localhost'', 5443) = Some r2" for p r1 r2
    by (simp_all add: three_servers_def)
  show "attempts (fresh_world 0) (map snd (regions init)) = [True, True, True]"
    unfolding fresh_world_def regions_init(1)
    by (simp add: connect_example quiet_def s)
  have t: "east_unseeded (''localhost'', 5441) \<noteq> None"
    "east_unseeded (''localhost'', 5442) \<noteq> None"
    by (simp_all add: east_unseeded_def three_servers_def)
  show "attempts (outage east_unseeded 2 (''localhost'', 5443) {} 0) (map snd (regions init))
     = [True, True, False]"
    unfolding regions_init(1)
    by (simp add: connect_outage t numeral_2_eq_2)
qed

text \<open>
  Claim C5. For a monitor whose two dictionaries are well-formed (keys distinct, every
  connection under a configured region, as \<^verbatim>\<open>__init__\<close> and \<^verbatim>\<open>connect_all\<close> leave them),
  \<^verbatim>\<open>connect_all\<close> returns \<open>True\<close> exactly when the monitor then holds a connection for
  every configured region; starting without connections, that is exactly when every
  connection attempt succeeded. When it returns \<open>False\<close>, \<^verbatim>\<open>run_monitoring\<close> returns with
  \<^verbatim>\<open>connect_all\<close> as the only method invoked, in the state \<^verbatim>\<open>connect_all\<close> left, and
  with the servers as the environment alone made them during the connection attempts.
\<close>

theorem connect_all_gate:
  assumes "distinct (map fst (regions m))" and "distinct (map fst (connections m))"
    and "fst ` set (connections m) \<subseteq> fst ` set (regions m)"
  shows "(snd (connect_all w m)
            \<longleftrightarrow> list_all (connected_to (snd (fst (connect_all w m)))) (map fst (regions m)))
       \<and> (connections m = []
            \<longrightarrow> (snd (connect_all w m)
                   \<longleftrightarrow> list_all (\<lambda>b. b) (attempts w (map snd (regions m)))))
       \<and> (\<not> snd (connect_all w m)
            \<longrightarrow> snd (run_monitoring d w m) = None
              \<and> rs_calls (fst (run_monitoring d w m)) = [ConnectAll]
              \<and> rs_world (fst (run_monitoring d w m)) = fst (fst (connect_all w m))
              \<and> servers (rs_world (fst (run_monitoring d w m)))
                  = servers ((advance ^^ length (regions m)) w)
              \<and> rs_monitor (fst (run_monitoring d w m)) = snd (fst (connect_all w m)))"
proof -
  note ok = connect_all_ok_iff [OF assms, of w]
  have held: "snd (connect_all w m)
      \<longleftrightarrow> list_all (connected_to (snd (fst (connect_all w m)))) (map fst (regions m))"
    unfolding all_connected_to_iff by (rule ok)
  have opened: "snd (connect_all w m)
      \<longleftrightarrow> list_all (\<lambda>b. b) (attempts w (map snd (regions m)))"
    if "connections m = []"
  proof -
    from assms(1) have "set (map fst (regions m))
        \<subseteq> fst ` set (filter snd (zip (map fst (regions m)) (attempts w (map snd (regions m)))))
      \<longleftrightarrow> list_all (\<lambda>b. b) (attempts w (map snd (regions m)))"
      by (rule all_attempts_iff) (simp add: length_attempts)
    then show ?thesis
      unfolding ok connect_all_fresh_keys [OF that] by simp
  qed
  have gate: "snd (run_monitoring d w m) = None
      \<and> rs_calls (fst (run_monitoring d w m)) = [ConnectAll]
      \<and> rs_world (fst (run_monitoring d w m)) = fst (fst (connect_all w m))
      \<and> servers (rs_world (fst (run_monitoring d w m)))
          = servers ((advance ^^ length (regions m)) w)
      \<and> rs_monitor (fst (run_monitoring d w m)) = snd (fst (connect_all w m))"
    if "\<not> snd (connect_all w m)"
    unfolding run_monitoring_gives_up [OF that] by (simp add: connect_all_servers)
  from held opened gate show ?thesis
    by blast
qed

theorem connect_all_gate_witness:
  "distinct (map fst (regions init)) \<and> distinct (map fst (connections init))
   \<and> fst ` set (connections init) \<subseteq> fst ` set (regions init)
   \<and> connections init = []
   \<and> snd (connect_all (fresh_world 0) init)
   \<and> list_all (connected_to (snd (fst (connect_all (fresh_world 0) init))))
       (map fst (regions init))
   \<and> list_all (\<lambda>b. b) (attempts (fresh_world 0) (map snd (regions init)))
   \<and> \<not> snd (connect_all (outage east_unseeded 2 (''localhost'', 5443) {} 0) init)
   \<and> \<not> list_all
         (connected_to
            (snd (fst (connect_all (outage east_unseeded 2 (''localhost'', 5443) {} 0) init))))
         (map fst (regions init))
   \<and> \<not> list_all (\<lambda>b. b)
         (attempts (outage east_unseeded 2 (''localhost'', 5443) {} 0) (map snd (regions init)))
   \<and> snd (run_monitoring 30 (outage east_unseeded 2 (''localhost'', 5443) {} 0) init) = None
   \<and> rs_calls (fst (run_monitoring 30 (outage east_unseeded 2 (''localhost'', 5443) {} 0) init))
       = [ConnectAll]
   \<and> rs_world (fst (run_monitoring 30 (outage east_unseeded 2 (''localhost'', 5443) {} 0) init))
       = outage east_unseeded 2 (''localhost'', 5443) {} 3
   \<and> rs_monitor (fst (run_monitoring 30 (outage east_unseeded 2 (''localhost'', 5443) {} 0)
         init)) = partly_connected"
proof -
  have wf: "distinct (map fst (regions init))" "distinct (map fst (connections init))"
    "fst ` set (connections init) \<subseteq> fst ` set (regions init)" "connections init = []"
    by (simp_all add: init_def)
  from connect_all_gate [OF wf(1-3), of "fresh_world 0" 30]
       connect_all_gate [OF wf(1-3), of "outage east_unseeded 2 (''localhost'', 5443) {} 0" 30]
       wf
  show ?thesis
    by (simp add: connect_all_fresh connect_all_partial)
qed

subsection \<open>The steps of \<^verbatim>\<open>run_monitoring\<close>\<close>

lemma extends_refl: "extends xs xs"
  by (simp add: extends_def)

lemma extends_trans: "extends xs ys \<Longrightarrow> extends ys zs \<Longrightarrow> extends xs zs"
  unfolding extends_def
  by (metis append_take_drop_id append_assoc append_eq_conv_conj)

lemma write_rows_frame:
  "write_rows w c is = (w', r) \<Longrightarrow> stable w w'"
proof (induction "is" arbitrary: w)
  case Nil
  then show ?case by (simp add: stable_refl)
next
  case (Cons i rest)
  obtain w1 r1 where e: "execute_update w c [InsertValues ''replication_test''] = (w1, r1)"
    by (cases "execute_update w c [InsertValues ''replication_test'']")
  note s1 = execute_update_frame(1) [OF e]
  show ?case
  proof (cases r1)
    case None
    with Cons.prems e have "write_rows w1 c rest = (w', r)"
      by simp
    from stable_trans [OF s1 Cons.IH [OF this]] show ?thesis .
  next
    case (Some x)
    with Cons.prems e s1 show ?thesis
      by simp
  qed
qed

lemma simulate_writes_frame:
  "snd (fst (simulate_writes n w m)) = m" "stable w (fst (fst (simulate_writes n w m)))"
proof -
  show "snd (fst (simulate_writes n w m)) = m"
    by (simp add: simulate_writes_def split: option.splits sum.splits prod.splits)
  show "stable w (fst (fst (simulate_writes n w m)))"
  proof (cases "map_of (connections m) ''us-west''")
    case None
    then show ?thesis by (simp add: simulate_writes_def stable_refl)
  next
    case (Some c)
    obtain w' r where wr: "write_rows w c [0..<nat n] = (w', r)"
      by (cases "write_rows w c [0..<nat n]")
    from write_rows_frame [OF wr] Some wr show ?thesis
      by (cases "cursor w c") (simp_all add: simulate_writes_def stable_refl)
  qed
qed

lemma setup_primary_frame: "snd (fst (setup_primary w m)) = m"
  by (simp add: setup_primary_def split: option.splits sum.splits prod.splits)

lemma connect_all_frame:
  "alerts (snd (fst (connect_all w m))) = alerts m"
  "metrics_history (snd (fst (connect_all w m))) = metrics_history m"
proof -
  obtain w' m' where c: "connect_regions w (regions m) m = (w', m')"
    by (cases "connect_regions w (regions m) m")
  with connect_regions_frame [of w "regions m" m]
  show "alerts (snd (fst (connect_all w m))) = alerts m"
    "metrics_history (snd (fst (connect_all w m))) = metrics_history m"
    by (simp_all add: connect_all_def)
qed

lemma run_simulate_writes_frame:
  "rs_calls (fst (run_simulate_writes n s)) = rs_calls s @ [SimulateWrites n]"
  "rs_monitor (fst (run_simulate_writes n s)) = rs_monitor s"
  "clock (rs_world (fst (run_simulate_writes n s))) = clock (rs_world s)"
proof -
  obtain w' m' r where sw: "simulate_writes n (rs_world s) (rs_monitor s) = ((w', m'), r)"
    by (cases "simulate_writes n (rs_world s) (rs_monitor s)") auto
  with simulate_writes_frame [where n = n and w = "rs_world s" and m = "rs_monitor s"]
  have "m' = rs_monitor s" "clock w' = clock (rs_world s)"
    by (simp_all add: stable_def)
  with sw show "rs_calls (fst (run_simulate_writes n s)) = rs_calls s @ [SimulateWrites n]"
    "rs_monitor (fst (run_simulate_writes n s)) = rs_monitor s"
    "clock (rs_world (fst (run_simulate_writes n s))) = clock (rs_world s)"
    by (simp_all add: run_simulate_writes_def)
qed

lemma run_check_frame:
  "rs_calls (fst (run_check_replication_status s)) = rs_calls s @ [CheckReplicationStatus]"
  "extends (alerts (rs_monitor s)) (alerts (rs_monitor (fst (run_check_replication_status s))))"
proof -
  obtain w' m' r where p: "check_replication_status (rs_world s) (rs_monitor s) = ((w', m'), r)"
    by (cases "check_replication_status (rs_world s) (rs_monitor s)") auto
  with poll_alerts [of "rs_monitor s" "rs_world s"]
  show "rs_calls (fst (run_check_replication_status s)) = rs_calls s @ [CheckReplicationStatus]"
    "extends (alerts (rs_monitor s)) (alerts (rs_monitor (fst (run_check_replication_status s))))"
    by (simp_all add: run_check_replication_status_def)
qed

lemma run_check_clock:
  assumes "run_check_replication_status s = (s', Inr st)"
  shows "clock (rs_world s') = clock (rs_world s)"
proof -
  obtain w' m' r where p: "check_replication_status (rs_world s) (rs_monitor s) = ((w', m'), r)"
    by (cases "check_replication_status (rs_world s) (rs_monitor s)") auto
  with assms have r: "r = Inr st" and s': "rs_world s' = w'"
    by (auto simp: run_check_replication_status_def)
  from poll_ok [OF p [unfolded r]] have "stable (rs_world s) w'"
    by simp
  with s' show ?thesis
    by (simp add: stable_def)
qed

lemma run_print_status_frame:
  "rs_calls (run_print_status st s) = rs_calls s @ [PrintStatus]"
  "rs_world (run_print_status st s) = rs_world s"
  "rs_monitor (run_print_status st s) = rs_monitor s"
  by (simp_all add: run_print_status_def print_status_def)

lemma run_sleep_frame:
  "rs_calls (run_sleep n s) = rs_calls s @ [Sleep n]"
  "clock (rs_world (run_sleep n s)) = clock (rs_world s) + n * 1000"
  "rs_monitor (run_sleep n s) = rs_monitor s"
  by (simp_all add: run_sleep_def sleep_def)

lemma tick_alerts: "extends (alerts (rs_monitor s)) (alerts (rs_monitor (fst (tick i s))))"
proof -
  obtain s1 r1 where w: "run_simulate_writes 5 s = (s1, r1)"
    by (cases "run_simulate_writes 5 s")
  with run_simulate_writes_frame(2) [of 5 s] have m1: "rs_monitor s1 = rs_monitor s"
    by simp
  have chk: "extends (alerts (rs_monitor t)) (alerts (rs_monitor (fst (run_check_replication_status t))))"
    for t by (rule run_check_frame)
  show ?thesis
  proof (cases "i mod 2 = 0")
    case True
    show ?thesis
    proof (cases r1)
      case (Some e)
      with True w m1 show ?thesis by (simp add: tick_def extends_refl)
    next
      case None
      with True w m1 chk [of s1] show ?thesis
        by (auto simp: tick_def Let_def run_print_status_frame run_sleep_frame
            split: prod.splits sum.splits)
    qed
  next
    case False
    with chk [of s] show ?thesis
      by (auto simp: tick_def Let_def run_sleep_frame split: prod.splits sum.splits)
  qed
qed

lemma tick_ok:
  assumes "tick i s = (s', None)"
  shows "rs_calls s' = rs_calls s @ tick_calls i"
    and "clock (rs_world s') = clock (rs_world s) + 5000"
proof -
  obtain s1 r1 where w: "run_simulate_writes 5 s = (s1, r1)"
    by (cases "run_simulate_writes 5 s")
  with run_simulate_writes_frame [of 5 s] have s1:
    "rs_calls s1 = rs_calls s @ [SimulateWrites 5]" "clock (rs_world s1) = clock (rs_world s)"
    by simp_all
  have chk: "rs_calls t2 = rs_calls t @ [CheckReplicationStatus]"
    "clock (rs_world t2) = clock (rs_world t)"
    if "run_check_replication_status t = (t2, Inr st)" for t t2 st
    using that run_check_frame(1) [of t] run_check_clock [OF that] by simp_all
  show "rs_calls s' = rs_calls s @ tick_calls i"
    using assms w s1
    by (auto simp: tick_def tick_calls_def Let_def run_print_status_frame run_sleep_frame
        split: if_splits prod.splits option.splits sum.splits dest!: chk(1))
  show "clock (rs_world s') = clock (rs_world s) + 5000"
    using assms w s1
    by (auto simp: tick_def Let_def run_print_status_frame run_sleep_frame
        split: if_splits prod.splits option.splits sum.splits dest!: chk(2))
qed

lemma run_loop_alerts:
  "extends (alerts (rs_monitor s)) (alerts (rs_monitor (fst (run_loop st d it s))))"
proof (induction st d it s rule: run_loop.induct)
  case (1 st d it s)
  show ?case
  proof (cases "int (clock (rs_world s)) - int st < d * 1000")
    case False
    then show ?thesis
      by (subst run_loop.simps) (simp add: extends_refl)
  next
    case True
    obtain s1 r where t: "tick (it + 1) s = (s1, r)"
      by (cases "tick (it + 1) s")
    from tick_alerts [of s "it + 1"] t
    have step: "extends (alerts (rs_monitor s)) (alerts (rs_monitor s1))"
      by simp
    show ?thesis
    proof (cases r)
      case (Some e)
      with True t step show ?thesis
        by (subst run_loop.simps) simp
    next
      case None
      from "1.IH" [OF True t [symmetric] None]
      have "extends (alerts (rs_monitor s1)) (alerts (rs_monitor (fst (run_loop st d (it + 1) s1))))" .
      with step have "extends (alerts (rs_monitor s))
          (alerts (rs_monitor (fst (run_loop st d (it + 1) s1))))"
        by (rule extends_trans)
      with True t None show ?thesis
        by (subst run_loop.simps) simp
    qed
  qed
qed

lemma ceil_div_step:
  assumes "0 < (x::int)"
  shows "nat ((x + 4999) div 5000) = Suc (if 5000 < x then nat ((x - 1) div 5000) else 0)"
proof (cases "5000 < x")
  case True
  have "(x - 1 + 5000) div 5000 = (x - 1) div 5000 + 1"
    by simp
  moreover have "x - 1 + 5000 = x + 4999"
    by simp
  ultimately have "(x + 4999) div 5000 = (x - 1) div 5000 + 1"
    by simp
  moreover from True have "0 \<le> (x - 1) div 5000"
    by simp
  ultimately show ?thesis
    using True by (simp add: nat_add_distrib)
next
  case False
  with assms have "5000 \<le> x + 4999" "x + 4999 < 2 * 5000"
    by simp_all
  then have "(x + 4999) div 5000 = 1"
    by (intro int_div_pos_eq [of _ 5000 1 "x - 1"]) simp_all
  with False show ?thesis
    by simp
qed

lemma ticks_left_step:
  assumes "int now - int st < d * 1000"
  shows "ticks_left st d now = Suc (ticks_left st d (now + 5000))"
proof -
  define x where "x = d * 1000 - (int now - int st)"
  from assms have pos: "0 < x"
    by (simp add: x_def)
  have later: "int (now + 5000) - int st < d * 1000 \<longleftrightarrow> 5000 < x"
    by (auto simp: x_def)
  have "d * 1000 - (int (now + 5000) - int st) + 4999 = x - 1"
    by (simp add: x_def)
  with ceil_div_step [OF pos] assms later show ?thesis
    unfolding ticks_left_def x_def [symmetric] by simp
qed

lemma run_loop_calls:
  "run_loop st d it s = (s', None)
   \<Longrightarrow> rs_calls s' = rs_calls s
         @ concat (map tick_calls (iterations it (ticks_left st d (clock (rs_world s)))))"
proof (induction st d it s rule: run_loop.induct)
  case (1 st d it s)
  show ?case
  proof (cases "int (clock (rs_world s)) - int st < d * 1000")
    case False
    with "1.prems" have "s' = s"
      by (subst (asm) run_loop.simps) simp
    with False show ?thesis
      by (simp add: ticks_left_def)
  next
    case True
    obtain s1 r where t: "tick (it + 1) s = (s1, r)"
      by (cases "tick (it + 1) s")
    from "1.prems" True t have r: "r = None" and rest: "run_loop st d (it + 1) s1 = (s', None)"
      by (subst (asm) run_loop.simps, auto split: option.splits)+
    from t r have t': "tick (it + 1) s = (s1, None)"
      by simp
    note ok = tick_ok [OF t']
    from "1.IH" [OF True t [symmetric] r rest]
    have "rs_calls s' = rs_calls s1
        @ concat (map tick_calls (iterations (it + 1) (ticks_left st d (clock (rs_world s1)))))" .
    with ok ticks_left_step [OF True] show ?thesis
      by simp
  qed
qed


lemma ceil_div_seconds: "(d * 1000 + 4999) div 5000 = (d + 4) div (5::int)"
proof -
  define q r where "q = (d + 4) div 5" and "r = (d + 4) mod 5"
  have "d + 4 = 5 * q + r"
    by (simp add: q_def r_def)
  then have eq: "d * 1000 + 4999 = 5000 * q + (1000 * r + 999)"
    by linarith
  have "0 \<le> r" "r < 5"
    by (simp_all add: r_def)
  then have "0 \<le> 1000 * r + 999" "1000 * r + 999 < 5000"
    by linarith+
  with eq have "(d * 1000 + 4999) div 5000 = q"
    by (rule int_div_pos_eq)
  then show ?thesis
    by (simp add: q_def)
qed

lemma ticks_left_start: "ticks_left st d st = nat ((d + 4) div 5)"
proof (cases "0 < d")
  case True
  then show ?thesis
    by (simp add: ticks_left_def ceil_div_seconds)
next
  case False
  then have "(d + 4) div 5 \<le> 0"
    by linarith
  with False show ?thesis
    by (simp add: ticks_left_def)
qed

lemma run_connect_all_frame:
  "rs_calls (fst (run_connect_all s)) = rs_calls s @ [ConnectAll]"
  "alerts (rs_monitor (fst (run_connect_all s))) = alerts (rs_monitor s)"
  "snd (run_connect_all s) = snd (connect_all (rs_world s) (rs_monitor s))"
proof -
  obtain w' m' ok where c: "connect_all (rs_world s) (rs_monitor s) = ((w', m'), ok)"
    by (cases "connect_all (rs_world s) (rs_monitor s)") auto
  with connect_all_frame(1) [of "rs_world s" "rs_monitor s"]
  show "rs_calls (fst (run_connect_all s)) = rs_calls s @ [ConnectAll]"
    "alerts (rs_monitor (fst (run_connect_all s))) = alerts (rs_monitor s)"
    "snd (run_connect_all s) = snd (connect_all (rs_world s) (rs_monitor s))"
    by (simp_all add: run_connect_all_def)
qed

lemma run_setup_primary_frame:
  "rs_calls (fst (run_setup_primary s)) = rs_calls s @ [SetupPrimary]"
  "rs_monitor (fst (run_setup_primary s)) = rs_monitor s"
proof -
  obtain w' m' r where c: "setup_primary (rs_world s) (rs_monitor s) = ((w', m'), r)"
    by (cases "setup_primary (rs_world s) (rs_monitor s)") auto
  with setup_primary_frame [of "rs_world s" "rs_monitor s"]
  show "rs_calls (fst (run_setup_primary s)) = rs_calls s @ [SetupPrimary]"
    "rs_monitor (fst (run_setup_primary s)) = rs_monitor s"
    by (simp_all add: run_setup_primary_def)
qed

lemma run_print_frame:
  "rs_calls (run_print out s) = rs_calls s"
  "rs_monitor (run_print out s) = rs_monitor s"
  "rs_world (run_print out s) = rs_world s"
  by (simp_all add: run_print_def)

lemma run_monitoring_alerts:
  "extends (alerts m) (alerts (rs_monitor (fst (run_monitoring d w m))))"
proof -
  define s0 where "s0 = run_print (banner ''MULTI-REGION REPLICATION MONITOR'')
      \<lparr>rs_world = w, rs_monitor = m, rs_calls = [], rs_stdout = []\<rparr>"
  obtain s1 ok where c: "run_connect_all s0 = (s1, ok)"
    by (cases "run_connect_all s0")
  obtain s2 r2 where p: "run_setup_primary s1 = (s2, r2)"
    by (cases "run_setup_primary s1")
  define s3 where "s3 = run_sleep 3 s2"
  obtain s4 r4 where l: "run_loop (clock (rs_world s3)) d 0 s3 = (s4, r4)"
    by (cases "run_loop (clock (rs_world s3)) d 0 s3")
  have a1: "alerts (rs_monitor s1) = alerts m"
    using run_connect_all_frame(2) [of s0] c by (simp add: s0_def run_print_def)
  have a2: "alerts (rs_monitor s2) = alerts m"
    using run_setup_primary_frame(2) [of s1] p a1 by simp
  have a3: "alerts (rs_monitor s3) = alerts m"
    using a2 by (simp add: s3_def run_sleep_frame)
  have a4: "extends (alerts m) (alerts (rs_monitor s4))"
    using run_loop_alerts [of s3 "clock (rs_world s3)" d 0] l a3 by simp
  have "fst (run_monitoring d w m) = s1 \<or> fst (run_monitoring d w m) = s2
      \<or> fst (run_monitoring d w m) = s4
      \<or> fst (run_monitoring d w m) = run_print (summary d (rs_monitor s4)) s4"
    unfolding run_monitoring_def s0_def [symmetric] Let_def c
    by (cases ok; cases r2; cases r4) (simp_all add: p s3_def [symmetric] l)
  with a1 a2 a4 show ?thesis
    by (auto simp: extends_refl run_print_frame)
qed

lemma run_monitoring_calls:
  assumes "snd (connect_all w m)" and "snd (run_monitoring d w m) = None"
  shows "rs_calls (fst (run_monitoring d w m)) =
           [ConnectAll, SetupPrimary, Sleep 3]
           @ concat (map tick_calls (iterations 0 (nat ((d + 4) div 5))))"
proof -
  define s0 where "s0 = run_print (banner ''MULTI-REGION REPLICATION MONITOR'')
      \<lparr>rs_world = w, rs_monitor = m, rs_calls = [], rs_stdout = []\<rparr>"
  obtain s1 ok where c: "run_connect_all s0 = (s1, ok)"
    by (cases "run_connect_all s0")
  obtain s2 r2 where p: "run_setup_primary s1 = (s2, r2)"
    by (cases "run_setup_primary s1")
  define s3 where "s3 = run_sleep 3 s2"
  obtain s4 r4 where l: "run_loop (clock (rs_world s3)) d 0 s3 = (s4, r4)"
    by (cases "run_loop (clock (rs_world s3)) d 0 s3")
  from assms(1) c run_connect_all_frame(3) [of s0] have ok: "ok"
    by (simp add: s0_def run_print_def)
  have run: "run_monitoring d w m =
      (case r2 of Some e \<Rightarrow> (s2, Some e)
       | None \<Rightarrow> (case r4 of Some e \<Rightarrow> (s4, Some e)
                   | None \<Rightarrow> (run_print (summary d (rs_monitor s4)) s4, None)))"
    unfolding run_monitoring_def s0_def [symmetric] Let_def c
    using ok by (simp add: p s3_def [symmetric] l)
  with assms(2) have r2: "r2 = None" and r4: "r4 = None"
    by (auto split: option.splits)
  have c1: "rs_calls s1 = [ConnectAll]"
    using run_connect_all_frame(1) [of s0] c by (simp add: s0_def run_print_def)
  have c2: "rs_calls s2 = [ConnectAll, SetupPrimary]"
    using run_setup_primary_frame(1) [of s1] p c1 by simp
  have c3: "rs_calls s3 = [ConnectAll, SetupPrimary, Sleep 3]"
    using c2 by (simp add: s3_def run_sleep_frame)
  from l r4 have "run_loop (clock (rs_world s3)) d 0 s3 = (s4, None)"
    by simp
  from run_loop_calls [OF this] c3 have "rs_calls s4 =
      [ConnectAll, SetupPrimary, Sleep 3]
      @ concat (map tick_calls (iterations 0 (nat ((d + 4) div 5))))"
    by (simp add: ticks_left_start)
  with run r2 r4 show ?thesis
    by (simp add: run_print_frame)
qed

text \<open>
  Claim C8. No method takes an alert away or changes one: \<^verbatim>\<open>connect_all\<close>,
  \<^verbatim>\<open>setup_primary\<close>, \<^verbatim>\<open>simulate_writes\<close> and \<^verbatim>\<open>print_status\<close> leave the alert list
  as it is, \<^verbatim>\<open>check_replication_status\<close> and \<^verbatim>\<open>run_monitoring\<close> at most add alerts at
  its end, whether they return or raise, and \<^verbatim>\<open>create_alert\<close>, which has no failing
  branch, adds exactly one.
\<close>

theorem alerts_append_only:
  "alerts (snd (fst (connect_all w m))) = alerts m
   \<and> alerts (snd (fst (setup_primary w m))) = alerts m
   \<and> alerts (snd (fst (simulate_writes n w m))) = alerts m
   \<and> extends (alerts m) (alerts (snd (fst (check_replication_status w m))))
   \<and> alerts (create_alert w rgn lag m) = alerts m @ [alert_of w rgn lag]
   \<and> alerts (fst (print_status st m)) = alerts m
   \<and> extends (alerts m) (alerts (rs_monitor (fst (run_monitoring d w m))))"
  by (simp add: connect_all_frame setup_primary_frame simulate_writes_frame(1) poll_alerts
      alerts_create_alert print_status_def run_monitoring_alerts)

subsection \<open>Runs in which nothing raises\<close>

lemma advance_quiet:
  assumes "evolve w = (\<lambda>t s. s)"
  shows "servers (advance w) = servers w" and "closed (advance w) = closed w"
    and "evolve (advance w) = evolve w"
  using assms by (simp_all add: advance_def)

lemma exchange_quiet:
  assumes "evolve w = (\<lambda>t s. s)" and "is_open w c"
    and "servers w (conn_host c, conn_port c) = Some db"
  shows "exchange w c = (advance w, Inr db)"
  using assms(3) by (simp add: exchange_open [OF assms(2)] advance_quiet(1) [OF assms(1)])

lemma world_cong:
  assumes "servers w' = servers w" and "closed w' = closed w"
  shows "is_open w' = is_open w" and "reachable w' = reachable w"
    and "has_test_table w' = has_test_table w"
  using assms
  by (simp_all add: fun_eq_iff is_open_def reachable_def has_test_table_def)

lemma ready_cong:
  assumes "ready w m" and "servers w' = servers w" and "closed w' = closed w"
    and "evolve w' = evolve w" and "connections m' = connections m"
  shows "ready w' m'"
  using assms(1,4,5)
  by (simp add: ready_def world_cong [OF assms(2,3)] cong: option.case_cong)

lemma insert_values_ok:
  assumes "evolve w = (\<lambda>t s. s)" and "is_open w c" and "has_test_table w c"
  shows "\<exists>w'. execute_update w c [InsertValues ''replication_test''] = (w', None)
           \<and> has_test_table w' c \<and> closed w' = closed w \<and> evolve w' = evolve w
           \<and> (\<forall>a. servers w a \<noteq> None \<longrightarrow> servers w' a \<noteq> None)"
proof -
  from assms(3) obtain db tb where db: "servers w (conn_host c, conn_port c) = Some db"
    "db ''replication_test'' = Some tb"
    by (auto simp: has_test_table_def split: option.splits)
  note q = advance_quiet [OF assms(1)]
  from exchange_quiet [OF assms(1,2) db(1)] db(2) q show ?thesis
    by (simp add: execute_update_def has_test_table_def)
qed

lemma write_rows_ok:
  assumes "evolve w = (\<lambda>t s. s)" and "is_open w c" and "has_test_table w c"
  shows "\<exists>w'. write_rows w c is = (w', None)
           \<and> has_test_table w' c \<and> closed w' = closed w \<and> evolve w' = evolve w
           \<and> (\<forall>a. servers w a \<noteq> None \<longrightarrow> servers w' a \<noteq> None)"
  using assms
proof (induction "is" arbitrary: w)
  case Nil
  then show ?case by simp
next
  case (Cons i rest)
  from insert_values_ok [OF Cons.prems] obtain w1 where w1:
    "execute_update w c [InsertValues ''replication_test''] = (w1, None)"
    "has_test_table w1 c" "closed w1 = closed w" "evolve w1 = evolve w"
    "\<forall>a. servers w a \<noteq> None \<longrightarrow> servers w1 a \<noteq> None"
    by blast
  from w1(3,4) Cons.prems(1,2) have q1: "evolve w1 = (\<lambda>t s. s)" "is_open w1 c"
    by (simp_all add: is_open_def)
  from Cons.IH [OF q1 w1(2)] obtain w' where w':
    "write_rows w1 c rest = (w', None)" "has_test_table w' c" "closed w' = closed w1"
    "evolve w' = evolve w1" "\<forall>a. servers w1 a \<noteq> None \<longrightarrow> servers w' a \<noteq> None"
    by blast
  from w1(1) w'(1) have "write_rows w c (i # rest) = (w', None)"
    by simp
  moreover from w1(5) w'(5) have "\<forall>a. servers w a \<noteq> None \<longrightarrow> servers w' a \<noteq> None"
    by blast
  ultimately show ?case
    using w1(3,4) w'(2,3,4) by simp
qed

lemma simulate_writes_ok:
  assumes "ready w m"
  shows "\<exists>w'. simulate_writes n w m = ((w', m), None) \<and> ready w' m"
proof -
  from assms obtain c where c: "map_of (connections m) ''us-west'' = Some c"
    "is_open w c" "has_test_table w c" and q: "evolve w = (\<lambda>t s. s)"
    by (auto simp: ready_def split: option.splits)
  from write_rows_ok [OF q c(2,3), of "[0..<nat n]"] obtain w' where w':
    "write_rows w c [0..<nat n] = (w', None)" "has_test_table w' c" "closed w' = closed w"
    "evolve w' = evolve w" "\<forall>a. servers w a \<noteq> None \<longrightarrow> servers w' a \<noteq> None"
    by blast
  from c w'(1) have run: "simulate_writes n w m = ((w', m), None)"
    by (simp add: simulate_writes_def cursor_def)
  have "is_open w' = is_open w"
    using w'(3) by (simp add: fun_eq_iff is_open_def)
  moreover have "reachable w c' \<longrightarrow> reachable w' c'" for c'
    using w'(5) by (simp add: reachable_def)
  ultimately have "ready w' m"
    using assms c(1) w'(2,4)
    by (auto simp: ready_def list_all_iff split: option.splits)
  with run show ?thesis
    by blast
qed

lemma fetch_quiet:
  assumes "evolve w = (\<lambda>t s. s)" and "is_open w c" and "reachable w c"
  shows "\<exists>r. fetch_count w c = (advance w, r)" and "\<exists>r. fetch_max_id w c = (advance w, r)"
proof -
  from assms(3) obtain db where db: "servers w (conn_host c, conn_port c) = Some db"
    by (auto simp: reachable_def)
  note e = exchange_quiet [OF assms(1,2) db]
  show "\<exists>r. fetch_count w c = (advance w, r)"
    by (simp add: fetch_count_def e split: sum.splits)
  show "\<exists>r. fetch_max_id w c = (advance w, r)"
    by (simp add: fetch_max_id_def e split: sum.splits)
qed

lemma fetch_quiet_table:
  assumes "evolve w = (\<lambda>t s. s)" and "is_open w c" and "has_test_table w c"
  shows "\<exists>n. fetch_count w c = (advance w, Inr n)"
    and "\<exists>v. fetch_max_id w c = (advance w, Inr v)"
proof -
  from assms(3) obtain db tb where db: "servers w (conn_host c, conn_port c) = Some db"
    "db ''replication_test'' = Some tb"
    by (auto simp: has_test_table_def split: option.splits)
  note e = exchange_quiet [OF assms(1,2) db(1)]
  show "\<exists>n. fetch_count w c = (advance w, Inr n)"
    using db(2) by (simp add: fetch_count_def e select_count_def)
  show "\<exists>v. fetch_max_id w c = (advance w, Inr v)"
    using db(2) by (simp add: fetch_max_id_def e select_max_id_def split: list.splits)
qed

lemma check_replica_quiet:
  assumes "evolve w = (\<lambda>t s. s)" and "map_of (connections m) rgn = Some c"
    and "is_open w c" and "reachable w c"
  shows "\<exists>w' m' e. check_replica w pc pm rgn m reps = ((w', m'), Inr (reps @ [e]))
           \<and> servers w' = servers w \<and> closed w' = closed w \<and> evolve w' = evolve w
           \<and> connections m' = connections m"
proof -
  note q = advance_quiet [OF assms(1)]
  from fetch_quiet(1) [OF assms(1,3,4)] obtain r1 where c1: "fetch_count w c = (advance w, r1)"
    by blast
  have q1: "evolve (advance w) = (\<lambda>t s. s)" "is_open (advance w) c" "reachable (advance w) c"
    using assms(1,3,4) q by (simp_all add: is_open_def reachable_def)
  note qq = advance_quiet [OF q1(1)]
  from fetch_quiet(2) [OF q1] obtain r2 where
    c2: "fetch_max_id (advance w) c = (advance (advance w), r2)"
    by blast
  show ?thesis
  proof (cases r1)
    case (Inl x)
    with assms(2,3) c1 q show ?thesis
      by (simp add: check_replica_def cursor_def)
  next
    case r1: (Inr k)
    show ?thesis
    proof (cases r2)
      case (Inl x)
      with assms(2,3) c1 c2 r1 q qq show ?thesis
        by (simp add: check_replica_def cursor_def)
    next
      case (Inr v)
      with assms(2,3) c1 c2 r1 q qq show ?thesis
        by (simp add: check_replica_def cursor_def Let_def create_alert_frame)
    qed
  qed
qed

lemma check_replicas_quiet:
  assumes "evolve w = (\<lambda>t s. s)"
    and "list_all (\<lambda>rgn. case map_of (connections m) rgn of
                           None \<Rightarrow> False
                         | Some c \<Rightarrow> is_open w c \<and> reachable w c) rgns"
  shows "\<exists>w' m' reps'. check_replicas w pc pm rgns m reps = ((w', m'), Inr reps')
           \<and> servers w' = servers w \<and> closed w' = closed w \<and> evolve w' = evolve w
           \<and> connections m' = connections m"
  using assms
proof (induction rgns arbitrary: w m reps)
  case Nil
  then show ?case by simp
next
  case (Cons rgn rest)
  from Cons.prems(2) obtain c where c: "map_of (connections m) rgn = Some c"
    "is_open w c" "reachable w c"
    by (auto split: option.splits)
  from check_replica_quiet [OF Cons.prems(1) c, of pc pm reps] obtain w1 m1 e where one:
    "check_replica w pc pm rgn m reps = ((w1, m1), Inr (reps @ [e]))"
    "servers w1 = servers w" "closed w1 = closed w" "evolve w1 = evolve w"
    "connections m1 = connections m"
    by blast
  from one(4) Cons.prems(1) have q1: "evolve w1 = (\<lambda>t s. s)"
    by simp
  from Cons.prems(2) one(5)
  have "list_all (\<lambda>rgn. case map_of (connections m1) rgn of
                           None \<Rightarrow> False
                         | Some c \<Rightarrow> is_open w1 c \<and> reachable w1 c) rest"
    by (simp add: world_cong [OF one(2,3)] cong: option.case_cong)
  from Cons.IH [OF q1 this, of "reps @ [e]"] obtain w' m' reps' where rest:
    "check_replicas w1 pc pm rest m1 (reps @ [e]) = ((w', m'), Inr reps')"
    "servers w' = servers w1" "closed w' = closed w1" "evolve w' = evolve w1"
    "connections m' = connections m1"
    by blast
  from one(1) rest(1) have "check_replicas w pc pm (rgn # rest) m reps = ((w', m'), Inr reps')"
    by simp
  with one(2-5) rest(2-5) show ?case
    by simp
qed

lemma poll_ready:
  assumes "ready w m"
  shows "\<exists>w' m' st. check_replication_status w m = ((w', m'), Inr st) \<and> ready w' m'"
proof -
  from assms obtain c where c: "map_of (connections m) ''us-west'' = Some c"
    "is_open w c" "has_test_table w c" and q: "evolve w = (\<lambda>t s. s)"
    and reps: "list_all (\<lambda>rgn. case map_of (connections m) rgn of
                           None \<Rightarrow> False
                         | Some c \<Rightarrow> is_open w c \<and> reachable w c) replica_regions"
    by (auto simp: ready_def split: option.splits)
  note a = advance_quiet [OF q]
  from fetch_quiet_table(1) [OF q c(2,3)] obtain n where
    c1: "fetch_count w c = (advance w, Inr n)"
    by blast
  have q1: "evolve (advance w) = (\<lambda>t s. s)" "is_open (advance w) c"
    "has_test_table (advance w) c"
    using q c(2,3) a by (simp_all add: is_open_def has_test_table_def)
  note aa = advance_quiet [OF q1(1)]
  from fetch_quiet_table(2) [OF q1] obtain v where
    c2: "fetch_max_id (advance w) c = (advance (advance w), Inr v)"
    by blast
  have q2: "evolve (advance (advance w)) = (\<lambda>t s. s)"
    using q1(1) aa by simp
  have same: "servers (advance (advance w)) = servers w"
    "closed (advance (advance w)) = closed w"
    using a aa by simp_all
  from reps
  have "list_all (\<lambda>rgn. case map_of (connections m) rgn of
                           None \<Rightarrow> False
                         | Some c \<Rightarrow> is_open (advance (advance w)) c
                                    \<and> reachable (advance (advance w)) c) replica_regions"
    by (simp add: world_cong [OF same] cong: option.case_cong)
  from check_replicas_quiet [OF q2 this, of n "or_zero v" "[]"] obtain w' m1 reps' where loop:
    "check_replicas (advance (advance w)) n (or_zero v) replica_regions m []
       = ((w', m1), Inr reps')"
    "servers w' = servers (advance (advance w))" "closed w' = closed (advance (advance w))"
    "evolve w' = evolve (advance (advance w))" "connections m1 = connections m"
    by blast
  from poll_of_loop [OF c(1) c1 c2 loop(1)] obtain m' st where
    p: "check_replication_status w m = ((w', m'), Inr st)"
    by blast
  from poll_ok [OF p] have "connections m' = connections m"
    by simp
  with assms loop(2-4) a aa have "ready w' m'"
    by (intro ready_cong [OF assms]) simp_all
  with p show ?thesis
    by blast
qed

lemma sleep_ready:
  assumes "ready w m"
  shows "ready (sleep n w) m"
  by (rule ready_cong [OF assms]) (simp_all add: sleep_def)

lemma tick_ready:
  assumes "ready (rs_world s) (rs_monitor s)"
  shows "\<exists>s'. tick i s = (s', None) \<and> ready (rs_world s') (rs_monitor s')"
proof -
  define s1 where "s1 = (if i mod 2 = 0 then fst (run_simulate_writes 5 s) else s)"
  have w: "(if i mod 2 = 0 then run_simulate_writes 5 s else (s, None)) = (s1, None)"
    and r1: "ready (rs_world s1) (rs_monitor s1)"
    using simulate_writes_ok [OF assms, of 5] assms
    by (auto simp: s1_def run_simulate_writes_def)
  from poll_ready [OF r1] obtain w2 m2 st where
    p: "check_replication_status (rs_world s1) (rs_monitor s1) = ((w2, m2), Inr st)"
    and r2: "ready w2 m2"
    by blast
  define s2 where "s2 = s1\<lparr>rs_world := w2, rs_monitor := m2,
      rs_calls := rs_calls s1 @ [CheckReplicationStatus]\<rparr>"
  have c: "run_check_replication_status s1 = (s2, Inr st)"
    by (simp add: run_check_replication_status_def p s2_def)
  define s3 where "s3 = (if i mod 2 = 0 then run_print_status st s2 else s2)"
  from r2 have r3: "ready (rs_world s3) (rs_monitor s3)"
    by (simp add: s3_def s2_def run_print_status_frame)
  then have "ready (rs_world (run_sleep 5 s3)) (rs_monitor (run_sleep 5 s3))"
    by (simp add: run_sleep_def sleep_ready)
  moreover have "tick i s = (run_sleep 5 s3, None)"
    unfolding tick_def w by (simp add: c s3_def)
  ultimately show ?thesis
    by blast
qed

lemma run_loop_ready:
  "ready (rs_world s) (rs_monitor s) \<Longrightarrow> snd (run_loop st d it s) = None"
proof (induction st d it s rule: run_loop.induct)
  case (1 st d it s)
  show ?case
  proof (cases "int (clock (rs_world s)) - int st < d * 1000")
    case False
    then show ?thesis
      by (subst run_loop.simps) simp
  next
    case True
    from tick_ready [OF "1.prems", of "it + 1"] obtain s1 where
      t: "tick (it + 1) s = (s1, None)" and r: "ready (rs_world s1) (rs_monitor s1)"
      by blast
    from "1.IH" [OF True t [symmetric] refl r] True t show ?thesis
      by (subst run_loop.simps) simp
  qed
qed

lemma ready_seeded: "ready (sleep 3 (seeded_world k)) all_connected"
proof -
  have f: "servers (seeded_world k) = three_servers (seeded Map.empty) Map.empty Map.empty"
    "closed (seeded_world k) = {}" "evolve (seeded_world k) = quiet"
    by (simp_all add: seeded_world_def example_world_def)
  have "quiet = (\<lambda>t s. s)"
    by (intro ext) (simp add: quiet_def)
  with f have "ready (seeded_world k) all_connected"
    by (simp add: ready_def lookup_all_connected has_test_table_def reachable_def is_open_def
        servers_three seeded_def replica_regions_def)
  then show ?thesis
    by (rule sleep_ready)
qed

lemma run_fresh_returns: "snd (run_monitoring d (fresh_world 0) init) = None"
proof -
  define s3 where "s3 =
    \<lparr>rs_world = sleep 3 (seeded_world 4), rs_monitor = all_connected,
     rs_calls = [ConnectAll, SetupPrimary, Sleep 3],
     rs_stdout = banner ''MULTI-REGION REPLICATION MONITOR''\<rparr>"
  have "ready (rs_world s3) (rs_monitor s3)"
    by (simp add: s3_def ready_seeded)
  then have loop: "snd (run_loop (clock (rs_world s3)) d 0 s3) = None"
    by (rule run_loop_ready)
  have "snd (run_monitoring d (fresh_world 0) init)
      = snd (run_loop (clock (rs_world s3)) d 0 s3)"
    by (simp add: run_monitoring_def run_print_def run_connect_all_def connect_all_fresh
        run_setup_primary_def setup_fresh(1) [of 3] run_sleep_def s3_def
        split: prod.splits option.splits)
  with loop show ?thesis
    by simp
qed

lemma calls_two_ticks:
  "[ConnectAll, SetupPrimary, Sleep 3] @ concat (map tick_calls (iterations 0 (nat ((10 + 4) div 5))))
     = [ConnectAll, SetupPrimary, Sleep 3, CheckReplicationStatus, Sleep 5,
        SimulateWrites 5, CheckReplicationStatus, PrintStatus, Sleep 5]"
  by (simp add: numeral_2_eq_2 tick_calls_def)

lemma run_fresh_calls:
  "rs_calls (fst (run_monitoring 10 (fresh_world 0) init)) =
     [ConnectAll, SetupPrimary, Sleep 3, CheckReplicationStatus, Sleep 5,
      SimulateWrites 5, CheckReplicationStatus, PrintStatus, Sleep 5]"
proof -
  have "snd (connect_all (fresh_world 0) init)"
    by (simp add: connect_all_fresh)
  from run_monitoring_calls [OF this run_fresh_returns, of 10] show ?thesis
    by (simp only: calls_two_ticks)
qed

text \<open>
  Claim C6, as stated, fails: a pass of the loop is not either the writes or a poll. In the
  run of ten seconds from three fresh servers the first pass polls, and the second pass
  issues the five writes and polls as well, then prints the report.
\<close>

theorem run_pass_writes_and_polls:
  "rs_calls (fst (run_monitoring 10 (fresh_world 0) init)) =
     [ConnectAll, SetupPrimary, Sleep 3]
     @ [CheckReplicationStatus, Sleep 5]
     @ [SimulateWrites 5, CheckReplicationStatus, PrintStatus, Sleep 5]
   \<and> \<not> writes_xor_poll [SimulateWrites 5, CheckReplicationStatus, PrintStatus, Sleep 5]"
  by (simp add: run_fresh_calls writes_xor_poll_def)

text \<open>
  Claim C6, amended. A run that connects to every region and in which no method raises
  invokes \<^verbatim>\<open>connect_all\<close>, \<^verbatim>\<open>setup_primary\<close> and a sleep of 3 seconds, and then the
  passes of the loop, each ending in a sleep of 5 seconds: every pass polls, and every
  second pass (the even iterations) issues 5 writes before the poll and prints the report
  after it. The loop is entered while the elapsed time is less than the duration, which in
  this model, where only the sleeps take time, makes \<open>\<lceil>duration / 5\<rceil>\<close> passes.
\<close>

theorem run_monitoring_schedule:
  assumes "snd (connect_all w m)" and "snd (run_monitoring d w m) = None"
  shows "rs_calls (fst (run_monitoring d w m)) =
           [ConnectAll, SetupPrimary, Sleep 3]
           @ concat (map tick_calls (iterations 0 (nat ((d + 4) div 5))))"
  using assms by (rule run_monitoring_calls)

theorem run_monitoring_schedule_witness:
  "snd (connect_all (fresh_world 0) init)
   \<and> snd (run_monitoring 10 (fresh_world 0) init) = None
   \<and> rs_calls (fst (run_monitoring 10 (fresh_world 0) init)) =
       [ConnectAll, SetupPrimary, Sleep 3, CheckReplicationStatus, Sleep 5,
        SimulateWrites 5, CheckReplicationStatus, PrintStatus, Sleep 5]"
proof -
  have ok: "snd (connect_all (fresh_world 0) init)"
    by (simp add: connect_all_fresh)
  from run_monitoring_schedule [OF ok run_fresh_returns, of 10] ok run_fresh_returns
  show ?thesis
    by (simp only: calls_two_ticks simp_thms)
qed

end
